theory Spec2Isabelle
  imports Main "HOL-Library.AList" "HOL-Library.Char_ord" "HOL-Library.Sublist" "HOL-Library.Word"
begin

unbundle bit_operations_syntax

section \<open>Deployment configuration and the stack-name validator (package models)\<close>

text \<open>
  Go strings are byte sequences; \<^typ>\<open>string\<close> is a list of 8-bit characters, so
  \<open>len(name)\<close> is \<^const>\<open>length\<close> and \<open>name[0]\<close> is the first byte.

  \<open>NewtConfig\<close> is the struct of the deployment model (fields \<open>Endpoint\<close>, \<open>NewtID\<close>,
  \<open>Secret\<close>, \<open>Image\<close>, ...); the tunnel injector reads its \<open>Image\<close> field and calls
  \<open>GetEnvironmentVars\<close> on it.
\<close>

record NewtConfig =
  Endpoint :: string
  NewtID :: string
  Secret :: string
  Image :: string
  LogLevel :: string
  HealthFile :: string
  CustomConfig :: "string \<rightharpoonup> string"

record DeploymentConfig =
  TemplateID :: string
  StackName :: string
  Environment :: "string \<rightharpoonup> string"
  NewtConfig :: "NewtConfig option"
  AutoStart :: bool
  IncludeNewt :: bool
  OverrideExisting :: bool

datatype validation_error =
    ErrDeploymentTemplateRequired
  | ErrDeploymentStackNameRequired
  | ErrDeploymentInvalidStackName
  | ErrNewtConfigRequired
  | ErrNewtField string

text \<open>The condition of the \<open>for _, char := range name\<close> loop, on one character.\<close>

definition runeAllowed :: "char \<Rightarrow> bool" where
  "runeAllowed c \<longleftrightarrow>
     (CHR ''a'' \<le> c \<and> c \<le> CHR ''z'') \<or>
     (CHR ''A'' \<le> c \<and> c \<le> CHR ''Z'') \<or>
     (CHR ''0'' \<le> c \<and> c \<le> CHR ''9'') \<or>
     c = CHR ''-'' \<or> c = CHR ''_''"

text \<open>
  The loop itself: it returns \<open>false\<close> at the first character outside the allowed set.
  Go ranges over the runes decoded from the UTF-8 bytes; a byte below \<open>0x80\<close> is its own
  rune, and every rune decoded from bytes at or above \<open>0x80\<close> (a multi-byte code point, or
  U+FFFD for an invalid byte) is itself above \<open>0x7F\<close> and so outside the allowed set,
  exactly as each of those bytes is. The loop over bytes therefore rejects the same strings.
\<close>

fun runesAllowed :: "string \<Rightarrow> bool" where
  "runesAllowed [] = True"
| "runesAllowed (c # cs) = (if \<not> runeAllowed c then False else runesAllowed cs)"

definition isValidStackName :: "string \<Rightarrow> bool" where
  "isValidStackName name =
     (if length name = 0 \<or> length name > 63 then False
      else if \<not> runesAllowed name then False
      else (CHR ''a'' \<le> name ! 0 \<and> name ! 0 \<le> CHR ''z'') \<or>
           (CHR ''A'' \<le> name ! 0 \<and> name ! 0 \<le> CHR ''Z'') \<or>
           (CHR ''0'' \<le> name ! 0 \<and> name ! 0 \<le> CHR ''9''))"

text \<open>
  \<open>NewtConfig.Validate\<close> and \<open>DeploymentConfig.Validate\<close>. \<open>strings.TrimSpace\<close> belongs to
  the Go standard library and is taken as the parameter \<open>trim\<close>. \<open>None\<close> is Go's \<open>nil\<close>
  error.
\<close>

definition NewtConfig_Validate :: "(string \<Rightarrow> string) \<Rightarrow> NewtConfig \<Rightarrow> validation_error option" where
  "NewtConfig_Validate trim nc =
     (if trim (Endpoint nc) = [] then Some (ErrNewtField ''newt endpoint is required'')
      else if trim (NewtID nc) = [] then Some (ErrNewtField ''newt ID is required'')
      else if trim (Secret nc) = [] then Some (ErrNewtField ''newt secret is required'')
      else None)"

definition DeploymentConfig_Validate ::
  "(string \<Rightarrow> string) \<Rightarrow> DeploymentConfig \<Rightarrow> validation_error option" where
  "DeploymentConfig_Validate trim dc =
     (if trim (TemplateID dc) = [] then Some ErrDeploymentTemplateRequired
      else if trim (StackName dc) = [] then Some ErrDeploymentStackNameRequired
      else if \<not> isValidStackName (StackName dc) then Some ErrDeploymentInvalidStackName
      else if IncludeNewt dc \<and> NewtConfig dc = None then Some ErrNewtConfigRequired
      else (case NewtConfig dc of
              None \<Rightarrow> None
            | Some nc \<Rightarrow> NewtConfig_Validate trim nc))"

text \<open>
  The name grammar in the words of the specification: 1 to 63 characters; alphanumeric,
  \<open>-\<close> and \<open>_\<close> only; the first character alphanumeric.
\<close>

definition alphanumeric :: "char \<Rightarrow> bool" where
  "alphanumeric c \<longleftrightarrow>
     c \<in> set ''abcdefghijklmnopqrstuvwxyz'' \<or> c \<in> set ''ABCDEFGHIJKLMNOPQRSTUVWXYZ'' \<or>
     c \<in> set ''0123456789''"

definition spec_stack_name :: "string \<Rightarrow> bool" where
  "spec_stack_name name \<longleftrightarrow>
     1 \<le> length name \<and> length name \<le> 63 \<and>
     list_all (\<lambda>c. alphanumeric c \<or> c = CHR ''-'' \<or> c = CHR ''_'') name \<and>
     alphanumeric (hd name)"

text \<open>A whitespace trimmer for ASCII input, used to run \<open>Validate\<close> on concrete requests.\<close>

definition asciiSpace :: "char \<Rightarrow> bool" where
  "asciiSpace c \<longleftrightarrow> c \<in> {CHR 0x09, CHR 0x0A, CHR 0x0B, CHR 0x0C, CHR 0x0D, CHR '' ''}"

definition asciiTrimSpace :: "string \<Rightarrow> string" where
  "asciiTrimSpace s = rev (dropWhile asciiSpace (rev (dropWhile asciiSpace s)))"

definition request_leading_dash :: DeploymentConfig where
  "request_leading_dash =
     \<lparr>TemplateID = ''tpl-1'', StackName = ''-leading'', Environment = Map.empty,
      NewtConfig = None, AutoStart = False, IncludeNewt = False, OverrideExisting = False\<rparr>"

section \<open>Backups: records, the store, the file system (packages models and backup)\<close>

subsection \<open>Records of package models\<close>

datatype BackupStatus = BackupStatusCreating | BackupStatusCompleted | BackupStatusFailed

datatype BackupType = BackupTypeManual | BackupTypeScheduled | BackupTypeAuto

text \<open>
  \<open>DeploymentBackup\<close> and \<open>BackupConfig\<close> with the fields the backup manager reads
  (\<open>Services\<close>, \<open>Networks\<close>, \<open>Volumes\<close>, \<open>Config\<close>, \<open>ComposeFiles\<close>, \<open>EnvConfigs\<close>,
  \<open>NewtConfigs\<close> and \<open>StorageConfig\<close> are carried by the requests and read nowhere).
\<close>

record DeploymentBackup =
  ID :: string
  StackName :: string

record BackupConfig =
  Name :: string
  Type :: BackupType
  IncludeVolumes :: bool
  Encrypted :: bool
  Deployments :: "DeploymentBackup list"

record RestoreConfig =
  BackupID :: string
  Selective :: bool
  DeploymentIDs :: "string list"
  OverwriteExisting :: bool
  RestoreVolumes :: bool
  TestRestore :: bool

record BackupMetadata =
  Version :: string
  CreatedAt :: nat
  AppVersion :: string
  TotalSize :: int
  DeploymentCount :: nat
  VolumeCount :: nat
  EncryptionKey :: string
  Checksum :: string

datatype DeploymentStatus =
  StatusPending | StatusDeploying | StatusRunning | StatusStopped | StatusFailed

text \<open>\<open>Deployment\<close>; its \<open>Config\<close> is the JSON text of the \<open>config\<close> column.\<close>

record Deployment =
  ID :: string
  TemplateID :: string
  StackName :: string
  Status :: DeploymentStatus
  Config :: string
  NewtInjected :: bool
  TunnelURL :: string
  CreatedAt :: nat
  UpdatedAt :: nat

record DeploymentLog =
  DeploymentID :: string
  LogLevel :: string
  Message :: string
  Timestamp :: nat

text \<open>
  Times are Unix seconds. \<open>CompletedAt\<close> is a pointer in Go and a nullable column in the
  store: \<open>None\<close> is \<open>nil\<close> and SQL \<open>NULL\<close>. \<open>SizeBytes\<close> is an \<open>int64\<close> that no
  operation here adds to, so it is an \<^typ>\<open>int\<close>.
\<close>

record Backup =
  ID :: string
  Name :: string
  Type :: BackupType
  Status :: BackupStatus
  SizeBytes :: int
  IncludeVolumes :: bool
  Encrypted :: bool
  StoragePath :: string
  DeploymentIDs :: "string list"
  CreatedAt :: nat
  CompletedAt :: "nat option"

datatype backup_error =
    ErrBackupNameRequired
  | ErrBackupNoDeployments
  | ErrRestoreBackupRequired
  | ErrRestoreNoDeployments
  | ErrNoRows
  | ErrConstraint string
  | ErrNotExist string
  | ErrIO string
  | ErrFormat string
  | ErrMessage string
  | Wrapped string backup_error



text \<open>\<open>RestoreConfig.HasDeployment\<close>: the loop returns at the first equal ID.\<close>

fun idListed :: "string list \<Rightarrow> string \<Rightarrow> bool" where
  "idListed [] deploymentID = False"
| "idListed (x # xs) deploymentID = (if x = deploymentID then True else idListed xs deploymentID)"

definition HasDeployment :: "RestoreConfig \<Rightarrow> string \<Rightarrow> bool" where
  "HasDeployment rc deploymentID =
     (if \<not> Selective rc then True else idListed (RestoreConfig.DeploymentIDs rc) deploymentID)"

subsection \<open>Strings and paths of the Go standard library\<close>

text \<open>\<open>strings.Join(elems, sep)\<close>.\<close>

fun strings_Join :: "string list \<Rightarrow> string \<Rightarrow> string" where
  "strings_Join [] sep = []"
| "strings_Join [x] sep = x"
| "strings_Join (x # y # zs) sep = x @ sep @ strings_Join (y # zs) sep"

text \<open>
  \<open>filepath.Join\<close> drops empty elements, joins the rest with the separator and cleans
  the result: of \<open>Clean\<close>, the removal of \<open>.\<close> elements is modelled (the archive's root
  entry is named \<open>.\<close>); the paths built here have no \<open>..\<close> and no doubled separator.
  \<open>filepath.Dir\<close> cuts the last element; \<open>filepath.Rel\<close> is needed only for a path at or
  below its base.
\<close>

definition filepath_Join :: "string list \<Rightarrow> string" where
  "filepath_Join elems = strings_Join (filter (\<lambda>e. e \<noteq> [] \<and> e \<noteq> ''.'') elems) ''/''"

definition filepath_Dir :: "string \<Rightarrow> string" where
  "filepath_Dir p =
     (let d = rev (dropWhile (\<lambda>c. c \<noteq> CHR ''/'') (rev p))
      in if d = [] then ''.'' else if d = ''/'' then ''/'' else butlast d)"

definition below :: "string \<Rightarrow> string \<Rightarrow> bool" where
  "below root p \<longleftrightarrow> p = root \<or> prefix (root @ ''/'') p"

definition filepath_Rel :: "string \<Rightarrow> string \<Rightarrow> backup_error + string" where
  "filepath_Rel base p =
     (if p = base then Inr ''.''
      else if prefix (base @ ''/'') p then Inr (drop (length base + 1) p)
      else Inl (ErrMessage ''Rel: path is not below its base''))"




subsection \<open>The world outside the process\<close>

text \<open>
  Files hold JSON documents or tar archives. An archive is the list of its entries in
  the order they were written: a name with \<open>None\<close> for a directory or the content of a
  regular file.
\<close>

datatype json = JString string | JNumber int | JObject "(string \<times> json) list"

datatype content = Empty | Json json | Tar "(string \<times> content option) list"

datatype fsnode = Dir | File content

datatype oscall =
    MkdirAllCall string
  | CreateCall string
  | OpenCall string
  | RemoveAllCall string

datatype job =
    PerformBackupJob Backup BackupConfig
  | PerformRestoreJob Backup RestoreConfig

text \<open>
  The state: the tables \<open>backups\<close>, \<open>deployments\<close> and \<open>deployment_logs\<close> keyed by their
  primary key, the file system as the list of its paths, the log of the calls made to
  package \<open>os\<close>, the \<open>docker\<close> command lines run, and the goroutines started with \<open>go\<close>
  that have not run yet.
\<close>

record System =
  backups :: "string \<rightharpoonup> Backup"
  deployments :: "string \<rightharpoonup> Deployment"
  deployment_logs :: "DeploymentLog list"
  fs :: "(string \<times> fsnode) list"
  oslog :: "oscall list"
  commands :: "string list list"
  spawned :: "job list"

text \<open>
  What the code cannot decide: the clock, which paths the operating system refuses
  (\<open>MkdirAll\<close>, \<open>Create\<close>, \<open>Open\<close>), on which files a write or a \<open>Stat\<close> fails, the size
  \<open>Stat\<close> reports, and which \<open>docker\<close> command lines fail. The store is
  reliable: a statement fails only for the reason SQL gives (no row, a primary key used
  twice, a foreign key or a check of the schema violated).
\<close>

record Env =
  now :: nat
  ioFails :: "string \<Rightarrow> bool"
  writeFails :: "string \<Rightarrow> bool"
  statFails :: "string \<Rightarrow> bool"
  statSize :: "string \<Rightarrow> int"
  commandFails :: "string list \<Rightarrow> bool"

record Manager =
  storagePath :: string

definition logged :: "oscall \<Rightarrow> System \<Rightarrow> System" where
  "logged c s = s\<lparr>oslog := oslog s @ [c]\<rparr>"

text \<open>
  \<open>os.MkdirAll\<close> creates the directory and the parents it lacks; it fails when the
  system refuses the path or when one of these names is a file.
\<close>

definition pathPrefixes :: "string \<Rightarrow> string list" where
  "pathPrefixes p =
     filter (\<lambda>q. q \<noteq> []) (map (\<lambda>i. take i p) (filter (\<lambda>i. p ! i = CHR ''/'') [0..<length p])) @ [p]"

definition isFile :: "(string \<times> fsnode) list \<Rightarrow> string \<Rightarrow> bool" where
  "isFile files p = (case map_of files p of Some (File c) \<Rightarrow> True | Some Dir \<Rightarrow> False | None \<Rightarrow> False)"

definition os_MkdirAll :: "Env \<Rightarrow> string \<Rightarrow> System \<Rightarrow> backup_error option \<times> System" where
  "os_MkdirAll e p s =
     (let s1 = logged (MkdirAllCall p) s
      in if ioFails e p then (Some (ErrIO p), s1)
         else if list_ex (isFile (fs s1)) (pathPrefixes p) then (Some (ErrIO p), s1)
         else (None, s1\<lparr>fs := fs s1 @
                 map (\<lambda>q. (q, Dir)) (filter (\<lambda>q. map_of (fs s1) q = None) (pathPrefixes p))\<rparr>))"

text \<open>\<open>os.Create\<close> makes the file, or truncates it when it exists.\<close>

definition os_Create :: "Env \<Rightarrow> string \<Rightarrow> System \<Rightarrow> backup_error option \<times> System" where
  "os_Create e p s =
     (let s1 = logged (CreateCall p) s
      in if ioFails e p then (Some (ErrIO p), s1)
         else (None, s1\<lparr>fs := AList.update p (File Empty) (fs s1)\<rparr>))"

definition os_Open :: "Env \<Rightarrow> string \<Rightarrow> System \<Rightarrow> (backup_error + fsnode) \<times> System" where
  "os_Open e p s =
     (let s1 = logged (OpenCall p) s
      in if ioFails e p then (Inl (ErrIO p), s1)
         else (case map_of (fs s1) p of
                 None \<Rightarrow> (Inl (ErrNotExist p), s1)
               | Some node \<Rightarrow> (Inr node, s1)))"

definition os_RemoveAll :: "string \<Rightarrow> System \<Rightarrow> System" where
  "os_RemoveAll p s =
     (let s1 = logged (RemoveAllCall p) s
      in s1\<lparr>fs := filter (\<lambda>(q, node). \<not> below p q) (fs s1)\<rparr>)"

text \<open>Writing the whole content of an open file.\<close>

definition writeContent :: "Env \<Rightarrow> string \<Rightarrow> content \<Rightarrow> System \<Rightarrow> backup_error option \<times> System" where
  "writeContent e p c s =
     (if writeFails e p then (Some (ErrIO p), s)
      else (None, s\<lparr>fs := AList.update p (File c) (fs s)\<rparr>))"

subsection \<open>The backup manager (package backup)\<close>




text \<open>
  \<open>UPDATE backups SET status, size_bytes, storage_path, deployment_ids, completed_at
  WHERE id\<close>: the row keeps its other columns, and no row is written when none has the ID.
\<close>

definition updateBackupRecord :: "Backup \<Rightarrow> System \<Rightarrow> backup_error option \<times> System" where
  "updateBackupRecord backup s =
     (case backups s (ID backup) of
        None \<Rightarrow> (None, s)
      | Some row \<Rightarrow>
          (None, s\<lparr>backups := (backups s)(ID backup \<mapsto>
             row\<lparr>Status := Status backup,
                 SizeBytes := SizeBytes backup,
                 StoragePath := StoragePath backup,
                 DeploymentIDs := DeploymentIDs backup,
                 CompletedAt := CompletedAt backup\<rparr>)\<rparr>))"

definition updateBackupStatus :: "Env \<Rightarrow> string \<Rightarrow> BackupStatus \<Rightarrow> System \<Rightarrow> System" where
  "updateBackupStatus e backupID status s =
     (let completedAt =
            (if status = BackupStatusCompleted \<or> status = BackupStatusFailed
             then Some (now e) else None)
      in case backups s backupID of
           None \<Rightarrow> s
         | Some row \<Rightarrow>
             s\<lparr>backups := (backups s)(backupID \<mapsto>
                row\<lparr>Status := status, CompletedAt := completedAt\<rparr>)\<rparr>)"


definition saveJSON :: "Env \<Rightarrow> string \<Rightarrow> json \<Rightarrow> System \<Rightarrow> backup_error option \<times> System" where
  "saveJSON e p data s =
     (case os_Create e p s of
        (Some err, s1) \<Rightarrow> (Some err, s1)
      | (None, s1) \<Rightarrow> writeContent e p (Json data) s1)"

definition loadJSON :: "Env \<Rightarrow> string \<Rightarrow> System \<Rightarrow> (backup_error + json) \<times> System" where
  "loadJSON e p s =
     (case os_Open e p s of
        (Inl err, s1) \<Rightarrow> (Inl err, s1)
      | (Inr (File (Json data)), s1) \<Rightarrow> (Inr data, s1)
      | (Inr node, s1) \<Rightarrow> (Inl (ErrFormat p), s1))"

definition metadataJSON :: "BackupMetadata \<Rightarrow> json" where
  "metadataJSON md =
     JObject ([(''version'', JString (Version md)),
               (''created_at'', JNumber (int (BackupMetadata.CreatedAt md))),
               (''app_version'', JString (AppVersion md)),
               (''total_size'', JNumber (TotalSize md)),
               (''deployment_count'', JNumber (int (DeploymentCount md))),
               (''volume_count'', JNumber (int (VolumeCount md)))] @
              (if EncryptionKey md = [] then [] else [(''encryption_key'', JString (EncryptionKey md))]) @
              [(''checksum'', JString (Checksum md))])"

definition saveMetadata :: "Env \<Rightarrow> string \<Rightarrow> BackupMetadata \<Rightarrow> System \<Rightarrow> backup_error option \<times> System" where
  "saveMetadata e backupDir metadata s =
     saveJSON e (filepath_Join [backupDir, ''metadata.json'']) (metadataJSON metadata) s"

definition backupDeployment :: "Env \<Rightarrow> string \<Rightarrow> string \<Rightarrow> System \<Rightarrow> backup_error option \<times> System" where
  "backupDeployment e deploymentID backupDir s =
     (case deployments s deploymentID of
        None \<Rightarrow> (Some ErrNoRows, s)
      | Some row \<Rightarrow>
          (let deploymentDir = filepath_Join [backupDir, ''deployments'', deploymentID]
           in case os_MkdirAll e deploymentDir s of
                (Some err, s1) \<Rightarrow> (Some err, s1)
              | (None, s1) \<Rightarrow>
                  saveJSON e (filepath_Join [deploymentDir, ''deployment.json''])
                    (JObject [(''config'', JString (Config row)),
                              (''id'', JString deploymentID),
                              (''stack_name'', JString (Deployment.StackName row)),
                              (''template_id'', JString (Deployment.TemplateID row))])
                    s1))"

text \<open>The loop over \<open>backup.DeploymentIDs\<close> in \<open>performBackup\<close>: it stops at the first error.\<close>

fun backupDeployments :: "Env \<Rightarrow> string list \<Rightarrow> string \<Rightarrow> System \<Rightarrow> backup_error option \<times> System" where
  "backupDeployments e [] backupDir s = (None, s)"
| "backupDeployments e (deploymentID # rest) backupDir s =
     (case backupDeployment e deploymentID backupDir s of
        (Some err, s1) \<Rightarrow> (Some err, s1)
      | (None, s1) \<Rightarrow> backupDeployments e rest backupDir s1)"

text \<open>
  \<open>createArchive\<close>. \<open>filepath.Walk\<close> visits the root and everything below it (here in the
  order of the path list); the callback writes one tar entry per path and stops the
  walk at the first error. The entries written before an error stay in the file.
\<close>

fun tarEntries ::
  "Env \<Rightarrow> string \<Rightarrow> (string \<times> fsnode) list \<Rightarrow> System \<Rightarrow>
   (string \<times> content option) list \<Rightarrow> (backup_error option \<times> (string \<times> content option) list) \<times> System" where
  "tarEntries e sourceDir [] s written = ((None, written), s)"
| "tarEntries e sourceDir ((p, node) # rest) s written =
     (case filepath_Rel sourceDir p of
        Inl err \<Rightarrow> ((Some err, written), s)
      | Inr relPath \<Rightarrow>
          (case node of
             Dir \<Rightarrow> tarEntries e sourceDir rest s (written @ [(relPath, None)])
           | File c \<Rightarrow>
               (case os_Open e p s of
                  (Inl err, s1) \<Rightarrow> ((Some err, written @ [(relPath, Some Empty)]), s1)
                | (Inr opened, s1) \<Rightarrow> tarEntries e sourceDir rest s1 (written @ [(relPath, Some c)]))))"

definition createArchive :: "Env \<Rightarrow> string \<Rightarrow> string \<Rightarrow> System \<Rightarrow> (backup_error + int) \<times> System" where
  "createArchive e sourceDir archivePath s =
     (case os_Create e archivePath s of
        (Some err, s1) \<Rightarrow> (Inl err, s1)
      | (None, s1) \<Rightarrow>
          (case map_of (fs s1) sourceDir of
             None \<Rightarrow> (Inl (ErrNotExist sourceDir), s1)
           | Some root \<Rightarrow>
               if writeFails e archivePath then (Inl (ErrIO archivePath), s1)
               else
               (case tarEntries e sourceDir (filter (\<lambda>(p, node). below sourceDir p) (fs s1)) s1 [] of
                  ((Some err, written), s2) \<Rightarrow>
                    (Inl err, s2\<lparr>fs := AList.update archivePath (File (Tar written)) (fs s2)\<rparr>)
                | ((None, written), s2) \<Rightarrow>
                    (let s3 = s2\<lparr>fs := AList.update archivePath (File (Tar written)) (fs s2)\<rparr>
                     in if statFails e archivePath then (Inl (ErrIO archivePath), s3)
                        else (Inr (statSize e archivePath), s3)))))"

text \<open>\<open>extractArchive\<close>: the loop over the entries of the archive.\<close>

fun extractEntries ::
  "Env \<Rightarrow> string \<Rightarrow> (string \<times> content option) list \<Rightarrow> System \<Rightarrow> backup_error option \<times> System" where
  "extractEntries e destDir [] s = (None, s)"
| "extractEntries e destDir ((name, entry) # rest) s =
     (let p = filepath_Join [destDir, name]
      in case entry of
           None \<Rightarrow>
             (case os_MkdirAll e p s of
                (Some err, s1) \<Rightarrow> (Some err, s1)
              | (None, s1) \<Rightarrow> extractEntries e destDir rest s1)
         | Some c \<Rightarrow>
             (case os_MkdirAll e (filepath_Dir p) s of
                (Some err, s1) \<Rightarrow> (Some err, s1)
              | (None, s1) \<Rightarrow>
                  (case os_Create e p s1 of
                     (Some err, s2) \<Rightarrow> (Some err, s2)
                   | (None, s2) \<Rightarrow>
                       (case writeContent e p c s2 of
                          (Some err, s3) \<Rightarrow> (Some err, s3)
                        | (None, s3) \<Rightarrow> extractEntries e destDir rest s3))))"

definition extractArchive :: "Env \<Rightarrow> string \<Rightarrow> string \<Rightarrow> System \<Rightarrow> backup_error option \<times> System" where
  "extractArchive e archivePath destDir s =
     (case os_Open e archivePath s of
        (Inl err, s1) \<Rightarrow> (Some err, s1)
      | (Inr (File (Tar entries)), s1) \<Rightarrow> extractEntries e destDir entries s1
      | (Inr node, s1) \<Rightarrow> (Some (ErrFormat archivePath), s1))"

text \<open>
  \<open>restoreDeployment\<close> reads the manifest and does nothing else (the restoration itself
  is a TODO of the source).
\<close>

definition restoreDeployment :: "Env \<Rightarrow> string \<Rightarrow> string \<Rightarrow> System \<Rightarrow> backup_error option \<times> System" where
  "restoreDeployment e deploymentID restoreDir s =
     (case loadJSON e (filepath_Join [restoreDir, ''deployments'', deploymentID, ''deployment.json'']) s of
        (Inl err, s1) \<Rightarrow> (Some err, s1)
      | (Inr deploymentInfo, s1) \<Rightarrow> (None, s1))"

text \<open>
  \<open>performBackup\<close>. Its first statement defers
  \<open>updateBackupStatus(backup.ID, BackupStatusCompleted)\<close>, which therefore runs last on every
  path out of the function: \<open>performBackup\<close> is the body followed by that call. The
  record passed in is a pointer; the body's last writes to it reach the store through
  \<open>updateBackupRecord\<close>.
\<close>

definition performBackup_body :: "Env \<Rightarrow> Manager \<Rightarrow> Backup \<Rightarrow> BackupConfig \<Rightarrow> System \<Rightarrow> System" where
  "performBackup_body e m backup config s =
     (let backupDir = filepath_Join [storagePath m, ID backup]
      in case backupDeployments e (DeploymentIDs backup) backupDir s of
           (Some err, s1) \<Rightarrow> updateBackupStatus e (ID backup) BackupStatusFailed s1
         | (None, s1) \<Rightarrow>
             (let metadata = \<lparr>Version = ''1.0'', BackupMetadata.CreatedAt = CreatedAt backup,
                              AppVersion = ''1.0.0'', TotalSize = 0,
                              DeploymentCount = length (DeploymentIDs backup),
                              VolumeCount = 0, EncryptionKey = [], Checksum = []\<rparr>
              in case saveMetadata e backupDir metadata s1 of
                   (Some err, s2) \<Rightarrow> updateBackupStatus e (ID backup) BackupStatusFailed s2
                 | (None, s2) \<Rightarrow>
                     (let archivePath = filepath_Join [storagePath m, ID backup @ ''.tar.gz'']
                      in case createArchive e backupDir archivePath s2 of
                           (Inl err, s3) \<Rightarrow>
                             updateBackupStatus e (ID backup) BackupStatusFailed s3
                         | (Inr sz, s3) \<Rightarrow>
                             (let backup' = backup\<lparr>StoragePath := archivePath, SizeBytes := sz,
                                                   CompletedAt := Some (now e)\<rparr>;
                                  s4 = snd (updateBackupRecord backup' s3)
                              in os_RemoveAll backupDir s4))))"

definition performBackup :: "Env \<Rightarrow> Manager \<Rightarrow> Backup \<Rightarrow> BackupConfig \<Rightarrow> System \<Rightarrow> System" where
  "performBackup e m backup config s =
     updateBackupStatus e (ID backup) BackupStatusCompleted
       (performBackup_body e m backup config s)"

text \<open>The loop of \<open>performRestore\<close> over the captured deployments.\<close>

fun restoreDeployments :: "Env \<Rightarrow> RestoreConfig \<Rightarrow> string list \<Rightarrow> string \<Rightarrow> System \<Rightarrow> System" where
  "restoreDeployments e config [] restoreDir s = s"
| "restoreDeployments e config (deploymentID # rest) restoreDir s =
     (if Selective config \<and> \<not> HasDeployment config deploymentID
      then restoreDeployments e config rest restoreDir s
      else if \<not> TestRestore config
      then restoreDeployments e config rest restoreDir
             (snd (restoreDeployment e deploymentID restoreDir s))
      else restoreDeployments e config rest restoreDir s)"

text \<open>\<open>performRestore\<close>, whose deferred \<open>os.RemoveAll(restoreDir)\<close> runs last.\<close>

definition performRestore :: "Env \<Rightarrow> Manager \<Rightarrow> Backup \<Rightarrow> RestoreConfig \<Rightarrow> System \<Rightarrow> System" where
  "performRestore e m backup config s =
     (let restoreDir = filepath_Join [storagePath m, ''restore'', ID backup]
      in os_RemoveAll restoreDir
           (case extractArchive e (StoragePath backup) restoreDir s of
              (Some err, s1) \<Rightarrow> s1
            | (None, s1) \<Rightarrow> restoreDeployments e config (DeploymentIDs backup) restoreDir s1))"



definition runJob :: "Env \<Rightarrow> Manager \<Rightarrow> job \<Rightarrow> System \<Rightarrow> System" where
  "runJob e m j s =
     (case j of
        PerformBackupJob backup config \<Rightarrow> performBackup e m backup config s
      | PerformRestoreJob backup config \<Rightarrow> performRestore e m backup config s)"

text \<open>Running the goroutines queued so far, oldest first.\<close>

definition runSpawned :: "Env \<Rightarrow> Manager \<Rightarrow> System \<Rightarrow> System" where
  "runSpawned e m s = fold (runJob e m) (spawned s) (s\<lparr>spawned := []\<rparr>)"

section \<open>Deployment handlers (package handlers) and the compose manager (package docker)\<close>

text \<open>
  \<open>runCommand\<close> runs \<open>docker\<close> with the arguments; whether the command fails is for the
  environment to say. \<open>Down\<close>, \<open>Start\<close> and \<open>Stop\<close> of the compose manager build their
  command lines.
\<close>

datatype handler_error = CommandFailed "string list" | ForeignKeyConstraint | CheckConstraint

definition runCommand :: "Env \<Rightarrow> string \<Rightarrow> string list \<Rightarrow> System \<Rightarrow> handler_error option \<times> System" where
  "runCommand e command args s =
     (let s1 = s\<lparr>commands := commands s @ [command # args]\<rparr>
      in if commandFails e (command # args) then (Some (CommandFailed (command # args)), s1)
         else (None, s1))"


definition compose_Start :: "Env \<Rightarrow> string \<Rightarrow> System \<Rightarrow> handler_error option \<times> System" where
  "compose_Start e stackName s =
     runCommand e ''docker'' [''compose'', ''--project-name'', stackName, ''start''] s"

definition compose_Stop :: "Env \<Rightarrow> string \<Rightarrow> System \<Rightarrow> handler_error option \<times> System" where
  "compose_Stop e stackName s =
     runCommand e ''docker'' [''compose'', ''--project-name'', stackName, ''stop''] s"



text \<open>
  \<open>updateDeploymentStatus\<close> (the same in both handlers):
  \<open>UPDATE deployments SET status = $1, updated_at = $2 WHERE id = $3\<close>.
\<close>

definition updateDeploymentStatus :: "Env \<Rightarrow> string \<Rightarrow> DeploymentStatus \<Rightarrow> System \<Rightarrow> System" where
  "updateDeploymentStatus e deploymentID status s =
     (case deployments s deploymentID of
        None \<Rightarrow> s
      | Some row \<Rightarrow>
          s\<lparr>deployments := (deployments s)(deploymentID \<mapsto>
             row\<lparr>Deployment.Status := status, UpdatedAt := now e\<rparr>)\<rparr>)"

definition addDeploymentLog :: "Env \<Rightarrow> string \<Rightarrow> string \<Rightarrow> string \<Rightarrow> System \<Rightarrow> System" where
  "addDeploymentLog e deploymentID level message s =
     (if deployments s deploymentID = None then s
      else if level \<notin> {''info'', ''warning'', ''error''} then s
      else s\<lparr>deployment_logs := deployment_logs s @
             [\<lparr>DeploymentID = deploymentID, LogLevel = level, Message = message,
               Timestamp = now e\<rparr>]\<rparr>)"

text \<open>
  The answer of a handler: \<open>http.Error\<close> with a status code and a message (and the error
  it formats into the message, when there is one), or a JSON object with status 200.
\<close>

datatype response =
    HttpError nat string
  | HttpErrorWith nat string handler_error
  | HttpJSON "(string \<times> string) list"


text \<open>
  \<open>StacksHandler.Start\<close> and \<open>StacksHandler.Stop\<close>. \<open>getStackName\<close> scans the stack name
  of the row and leaves the empty string when there is no row.
\<close>

definition getStackName :: "string \<Rightarrow> System \<Rightarrow> string" where
  "getStackName stackID s =
     (case deployments s stackID of None \<Rightarrow> [] | Some row \<Rightarrow> Deployment.StackName row)"

definition Start :: "Env \<Rightarrow> string \<Rightarrow> System \<Rightarrow> response \<times> System" where
  "Start e stackID s =
     (let stackName = getStackName stackID s
      in if stackName = [] then (HttpError 404 ''Stack not found'', s)
         else (case compose_Start e stackName s of
                 (Some err, s1) \<Rightarrow> (HttpErrorWith 500 ''Failed to start stack: '' err, s1)
               | (None, s1) \<Rightarrow>
                   (HttpJSON [(''message'', ''Stack started successfully'')],
                    updateDeploymentStatus e stackID StatusRunning s1)))"

definition Stop :: "Env \<Rightarrow> string \<Rightarrow> System \<Rightarrow> response \<times> System" where
  "Stop e stackID s =
     (let stackName = getStackName stackID s
      in if stackName = [] then (HttpError 404 ''Stack not found'', s)
         else (case compose_Stop e stackName s of
                 (Some err, s1) \<Rightarrow> (HttpErrorWith 500 ''Failed to stop stack: '' err, s1)
               | (None, s1) \<Rightarrow>
                   (HttpJSON [(''message'', ''Stack stopped successfully'')],
                    updateDeploymentStatus e stackID StatusStopped s1)))"

subsection \<open>Concrete systems\<close>

definition quiet :: Env where
  "quiet = \<lparr>now = 7, ioFails = (\<lambda>p. False), writeFails = (\<lambda>p. False),
             statFails = (\<lambda>p. False), statSize = (\<lambda>p. 2048), commandFails = (\<lambda>c. False)\<rparr>"

definition manager :: Manager where
  "manager = \<lparr>storagePath = ''/var/backups''\<rparr>"

definition demo_row :: "DeploymentStatus \<Rightarrow> Deployment" where
  "demo_row st =
     \<lparr>Deployment.ID = ''deploy_1'', TemplateID = ''tpl'', StackName = ''demo-1'',
      Deployment.Status = st, Config = ''{}'', NewtInjected = False, TunnelURL = [],
      Deployment.CreatedAt = 1, UpdatedAt = 2\<rparr>"


definition one_deployment :: "string \<Rightarrow> BackupConfig" where
  "one_deployment deploymentID =
     \<lparr>BackupConfig.Name = ''nightly'', BackupConfig.Type = BackupTypeManual,
      BackupConfig.IncludeVolumes = False, BackupConfig.Encrypted = False,
      Deployments = [\<lparr>DeploymentBackup.ID = deploymentID, DeploymentBackup.StackName = ''demo-1''\<rparr>]\<rparr>"





text \<open>
  The record \<open>CreateBackup\<close> writes at time 7 for the given deployments, and the system
  as \<open>CreateBackup\<close> leaves it: the record in status \<open>creating\<close> and the staging
  directory.
\<close>

definition new_backup :: "string list \<Rightarrow> Backup" where
  "new_backup ids =
     \<lparr>ID = ''backup_7'', Name = ''nightly'', Type = BackupTypeManual,
      Status = BackupStatusCreating, SizeBytes = 0, IncludeVolumes = False,
      Encrypted = False, StoragePath = [], DeploymentIDs = ids, CreatedAt = 7,
      CompletedAt = None\<rparr>"

definition capture_system :: "string list \<Rightarrow> System" where
  "capture_system ids =
     \<lparr>backups = [''backup_7'' \<mapsto> new_backup ids],
      deployments = [''deploy_1'' \<mapsto> demo_row StatusRunning],
      deployment_logs = [],
      fs = [(''/var'', Dir), (''/var/backups'', Dir), (''/var/backups/backup_7'', Dir)],
      oslog = [MkdirAllCall ''/var/backups/backup_7''], commands = [], spawned = []\<rparr>"

section \<open>Compose documents and the tunnel injector (package docker)\<close>

subsection \<open>The Compose document\<close>

text \<open>
  The structs that \<open>yaml.Unmarshal\<close> fills. A Go map is the list of its entries, each
  key once: \<open>m[k]\<close> is \<^const>\<open>map_of\<close>, \<open>m[k] = v\<close> is \<^const>\<open>AList.update\<close> and
  \<open>len(m) == 0\<close> asks for the empty list; the order of the list stands for nothing in
  Go. A slice is a list (the \<open>nil\<close> slice and the empty one are not told apart by the
  code, nor by \<open>omitempty\<close>); the \<open>interface{}\<close> fields \<open>Command\<close> and \<open>Entrypoint\<close> hold
  any YAML value or nothing.
\<close>

datatype yaml_value =
    YNull
  | YScalar string
  | YSeq "yaml_value list"
  | YMap "(string \<times> yaml_value) list"

record ComposeHealthCheck =
  Test :: "string list"
  Interval :: string
  Timeout :: string
  Retries :: int
  StartPeriod :: string

record ComposeNetwork =
  Driver :: string
  External :: bool
  Name :: string
  Labels :: "(string \<times> string) list"

record ComposeVolume =
  Driver :: string
  External :: bool
  Name :: string
  Labels :: "(string \<times> string) list"

record ComposeService =
  Image :: string
  ContainerName :: string
  Restart :: string
  Environment :: "string list"
  Ports :: "string list"
  Volumes :: "string list"
  Networks :: "string list"
  DependsOn :: "string list"
  HealthCheck :: "ComposeHealthCheck option"
  Labels :: "(string \<times> string) list"
  Command :: "yaml_value option"
  Entrypoint :: "yaml_value option"

record DockerCompose =
  Version :: string
  Services :: "(string \<times> ComposeService) list"
  Networks :: "(string \<times> ComposeNetwork) list"
  Volumes :: "(string \<times> ComposeVolume) list"

record ValidationResult =
  Valid :: bool
  HasNewt :: bool
  NetworkOK :: bool
  Issues :: "string list"
  Warnings :: "string list"
  Suggestions :: "string list"

text \<open>
  A \<open>range\<close> loop over a Go map visits the keys in an order the language leaves open.
  Where a result depends on that order, the order is a parameter: a rank by which the
  keys are sorted before the loop runs. There is one rank for each such loop: over
  \<open>requiredEnvs\<close> (in the call from \<open>ValidateCompose\<close> and in the call from
  \<open>ProcessCompose\<close>), over \<open>compose.Services\<close> (in \<open>validateNetworkConfiguration\<close> and
  for the port table) and over the port table.
\<close>

record RangeOrder =
  envRankValidate :: "string \<Rightarrow> nat"
  envRankProcess :: "string \<Rightarrow> nat"
  serviceRankNetworks :: "string \<Rightarrow> nat"
  serviceRankPorts :: "string \<Rightarrow> nat"
  portRank :: "string \<Rightarrow> nat"

definition visited :: "(string \<Rightarrow> nat) \<Rightarrow> (string \<times> 'a) list \<Rightarrow> (string \<times> 'a) list" where
  "visited rank m = sort_key (\<lambda>(k, v). rank k) m"

subsection \<open>The injector\<close>

text \<open>\<open>NewtConfig.GetEnvironmentVars\<close> (package models).\<close>

definition GetEnvironmentVars :: "NewtConfig \<Rightarrow> string list" where
  "GetEnvironmentVars nc =
     [''PANGOLIN_ENDPOINT='' @ Endpoint nc,
      ''NEWT_ID='' @ NewtID nc,
      ''NEWT_SECRET='' @ Secret nc,
      ''LOG_LEVEL=INFO'',
      ''HEALTH_FILE=/tmp/healthy'']"

definition createNewtService :: "NewtConfig \<Rightarrow> ComposeService" where
  "createNewtService config =
     (let service =
        \<lparr>Image = ''fosrl/newt:latest'',
         ContainerName = ''newt'',
         Restart = ''unless-stopped'',
         Environment = GetEnvironmentVars config,
         Ports = [],
         ComposeService.Volumes = [''/var/run/docker.sock:/var/run/docker.sock:ro''],
         ComposeService.Networks = [''app_network''],
         DependsOn = [],
         HealthCheck = Some \<lparr>Test = [''CMD'', ''test'', ''-f'', ''/tmp/healthy''],
                              Interval = ''30s'', Timeout = ''10s'', Retries = 3,
                              StartPeriod = ''60s''\<rparr>,
         Labels = [(''app.type'', ''tunnel''), (''app.name'', ''newt''),
                   (''app.managed'', ''true''), (''traefik.enable'', ''false'')],
         Command = None,
         Entrypoint = None\<rparr>
      in if NewtConfig.Image config \<noteq> [] then service\<lparr>Image := NewtConfig.Image config\<rparr>
         else service)"

text \<open>
  \<open>validateNewtService\<close>. \<open>strings.Contains\<close> is \<^const>\<open>sublist\<close> and
  \<open>strings.HasPrefix\<close> is \<^const>\<open>prefix\<close>. The first pair of loops marks the required
  names for which some entry of the environment starts with \<open>name=\<close>; the next loop
  collects the unmarked names in the order it visits them.
\<close>

definition requiredEnvs :: "string list" where
  "requiredEnvs = [''PANGOLIN_ENDPOINT'', ''NEWT_ID'', ''NEWT_SECRET'']"

fun markRequired :: "string \<Rightarrow> string list \<Rightarrow> (string \<rightharpoonup> bool) \<Rightarrow> (string \<rightharpoonup> bool)" where
  "markRequired env [] found = found"
| "markRequired env (required # rest) found =
     markRequired env rest
       (if prefix (required @ ''='') env then found(required \<mapsto> True) else found)"

fun markEnvironment :: "string list \<Rightarrow> string list \<Rightarrow> (string \<rightharpoonup> bool) \<Rightarrow> (string \<rightharpoonup> bool)" where
  "markEnvironment [] keys found = found"
| "markEnvironment (env # envs) keys found = markEnvironment envs keys (markRequired env keys found)"

fun hasDockerSocket :: "string list \<Rightarrow> bool" where
  "hasDockerSocket [] = False"
| "hasDockerSocket (volume # volumes) =
     (if sublist ''/var/run/docker.sock'' volume then True else hasDockerSocket volumes)"

definition validateNewtService :: "(string \<Rightarrow> nat) \<Rightarrow> ComposeService \<Rightarrow> string option" where
  "validateNewtService rank service =
     (if Image service = [] then Some ''newt service missing image''
      else if \<not> sublist ''newt'' (Image service)
        then Some (''newt service using incorrect image: '' @ Image service)
      else
        (let keys = sort_key rank requiredEnvs;
             found = markEnvironment (Environment service) keys
                       (map_of (map (\<lambda>k. (k, False)) requiredEnvs));
             missingEnvs = filter (\<lambda>env. found env = Some False) keys
         in if length missingEnvs > 0
            then Some (''missing required environment variables: '' @ strings_Join missingEnvs '', '')
            else if \<not> hasDockerSocket (ComposeService.Volumes service)
              then Some ''newt service missing Docker socket mount''
            else None))"

text \<open>\<open>validateNetworkConfiguration\<close>.\<close>

definition validateNetworkConfiguration :: "RangeOrder \<Rightarrow> DockerCompose \<Rightarrow> string option" where
  "validateNetworkConfiguration ro compose =
     (if length (Networks compose) = 0
      then Some ''no networks defined - services may not be able to communicate''
      else
        (let servicesWithoutNetworks =
               map fst (filter (\<lambda>(name, service). length (ComposeService.Networks service) = 0)
                          (visited (serviceRankNetworks ro) (Services compose)))
         in if length servicesWithoutNetworks > 0
            then Some (''services without network configuration: '' @
                       strings_Join servicesWithoutNetworks '', '')
            else None))"

text \<open>
  The port table of \<open>ValidateCompose\<close>: for every port of every service, the service is
  appended to the users of the host part of the port (the text before the first colon).
\<close>

definition addPortUser :: "string \<Rightarrow> string \<Rightarrow> (string \<times> string list) list \<Rightarrow> (string \<times> string list) list" where
  "addPortUser serviceName port ports =
     (let hostPort = takeWhile (\<lambda>c. c \<noteq> CHR '':'') port
      in AList.update hostPort
           ((case map_of ports hostPort of None \<Rightarrow> [] | Some users \<Rightarrow> users) @ [serviceName])
           ports)"

definition portTable :: "(string \<times> ComposeService) list \<Rightarrow> (string \<times> string list) list" where
  "portTable services =
     fold (\<lambda>(serviceName, service) ports. fold (addPortUser serviceName) (Ports service) ports)
       services []"

definition portWarnings :: "RangeOrder \<Rightarrow> DockerCompose \<Rightarrow> string list" where
  "portWarnings ro compose =
     map (\<lambda>(port, services).
            ''Port '' @ port @ '' is used by multiple services: '' @ strings_Join services '', '')
       (filter (\<lambda>(port, services). length services > 1)
          (visited (portRank ro)
             (portTable (visited (serviceRankPorts ro) (Services compose)))))"

definition ValidateCompose :: "RangeOrder \<Rightarrow> DockerCompose \<Rightarrow> ValidationResult" where
  "ValidateCompose ro compose =
     (let result = \<lparr>Valid = True, HasNewt = False, NetworkOK = True,
                     Issues = [], Warnings = [], Suggestions = []\<rparr>
      in if length (Services compose) = 0
         then result\<lparr>Issues := Issues result @ [''No services defined in docker-compose file''],
                     Valid := False\<rparr>
         else
           (let result =
                  (case map_of (Services compose) ''newt'' of
                     None \<Rightarrow> result
                   | Some newtService \<Rightarrow>
                       (case validateNewtService (envRankValidate ro) newtService of
                          None \<Rightarrow> result\<lparr>HasNewt := True\<rparr>
                        | Some err \<Rightarrow>
                            result\<lparr>HasNewt := True,
                                   Issues := Issues result @
                                     [''Newt service configuration error: '' @ err],
                                   Valid := False\<rparr>));
                result =
                  (case validateNetworkConfiguration ro compose of
                     None \<Rightarrow> result
                   | Some err \<Rightarrow>
                       result\<lparr>NetworkOK := False, Warnings := Warnings result @ [err]\<rparr>);
                result = result\<lparr>Warnings := Warnings result @ portWarnings ro compose\<rparr>;
                result =
                  (if \<not> HasNewt result
                   then result\<lparr>Suggestions := Suggestions result @
                                 [''Add newt service for remote tunnel access'']\<rparr>
                   else result);
                result =
                  (if length (Networks compose) = 0
                   then result\<lparr>Suggestions := Suggestions result @
                                 [''Define custom networks for better service isolation'']\<rparr>
                   else result)
            in result))"

text \<open>
  \<open>ensureNetworkConfiguration\<close>. The loop over \<open>compose.Services\<close> rewrites each service
  from that service alone and stores it under its own name, so the order of the visits
  does not matter: every entry of the map is replaced by its rewriting. The function
  returns \<open>nil\<close> on every path, and the model returns the document only.
\<close>

fun hasAppNetwork :: "string list \<Rightarrow> bool" where
  "hasAppNetwork [] = False"
| "hasAppNetwork (network # networks) =
     (if network = ''app_network'' then True else hasAppNetwork networks)"

definition ensureServiceNetwork :: "ComposeService \<Rightarrow> ComposeService" where
  "ensureServiceNetwork service =
     (if length (ComposeService.Networks service) = 0
      then service\<lparr>ComposeService.Networks := [''app_network'']\<rparr>
      else if \<not> hasAppNetwork (ComposeService.Networks service)
        then service\<lparr>ComposeService.Networks := ComposeService.Networks service @ [''app_network'']\<rparr>
      else service)"

definition ensureNetworkConfiguration :: "DockerCompose \<Rightarrow> DockerCompose" where
  "ensureNetworkConfiguration compose =
     (let compose =
            (if length (Networks compose) = 0
             then compose\<lparr>Networks :=
                    [(''app_network'',
                      \<lparr>ComposeNetwork.Driver = ''bridge'', ComposeNetwork.External = False,
                       ComposeNetwork.Name = [],
                       ComposeNetwork.Labels = [(''app.managed'', ''true'')]\<rparr>)]\<rparr>
             else compose)
      in compose\<lparr>Services :=
           map (\<lambda>(name, service). (name, ensureServiceNetwork service)) (Services compose)\<rparr>)"

text \<open>
  \<open>ProcessCompose\<close>: \<open>injectCompose\<close> is what it does to the parsed document, between
  \<open>yaml.Unmarshal\<close> and \<open>yaml.Marshal\<close>; the two functions of the YAML library are
  parameters, \<open>None\<close> being their error.
\<close>

definition injectCompose :: "RangeOrder \<Rightarrow> NewtConfig \<Rightarrow> DockerCompose \<Rightarrow> DockerCompose \<times> ValidationResult" where
  "injectCompose ro config compose =
     (let result = ValidateCompose ro compose;
          (compose, result) =
            (case map_of (Services compose) ''newt'' of
               Some existingNewt \<Rightarrow>
                 (case validateNewtService (envRankProcess ro) existingNewt of
                    Some err \<Rightarrow>
                      (compose\<lparr>Services := AList.update ''newt'' (createNewtService config) (Services compose)\<rparr>,
                       result\<lparr>HasNewt := True,
                              Issues := Issues result @ [err],
                              Suggestions := Suggestions result @
                                [''Updated existing newt service with correct configuration'']\<rparr>)
                  | None \<Rightarrow> (compose, result\<lparr>HasNewt := True\<rparr>))
             | None \<Rightarrow>
                 (compose\<lparr>Services := AList.update ''newt'' (createNewtService config) (Services compose)\<rparr>,
                  result\<lparr>HasNewt := True,
                         Suggestions := Suggestions result @
                           [''Added newt service for tunnel connectivity'']\<rparr>));
          compose = ensureNetworkConfiguration compose;
          result = result\<lparr>NetworkOK := True\<rparr>;
          result = result\<lparr>Valid := (length (Issues result) = 0)\<rparr>
      in (compose, result))"

datatype compose_error = ParseError | MarshalError

definition ProcessCompose ::
  "('b \<Rightarrow> DockerCompose option) \<Rightarrow> (DockerCompose \<Rightarrow> 'b option) \<Rightarrow> RangeOrder \<Rightarrow> NewtConfig \<Rightarrow> 'b \<Rightarrow>
   compose_error \<times> ValidationResult option + 'b \<times> ValidationResult" where
  "ProcessCompose unmarshal marshal ro config composeContent =
     (case unmarshal composeContent of
        None \<Rightarrow> Inl (ParseError, None)
      | Some compose \<Rightarrow>
          (case injectCompose ro config compose of
             (compose', result) \<Rightarrow>
               (case marshal compose' of
                  None \<Rightarrow> Inl (MarshalError, Some result)
                | Some modifiedContent \<Rightarrow> Inr (modifiedContent, result))))"

subsection \<open>The required-fields contract of the tunnel agent\<close>

text \<open>
  In the words of the specification: a service satisfies the contract when it uses an
  image recognizable as the tunnel-agent image, declares the three required environment
  variables and mounts the socket of the container runtime.
\<close>

definition envPresent :: "string list \<Rightarrow> string \<Rightarrow> bool" where
  "envPresent envs k \<longleftrightarrow> list_ex (\<lambda>env. prefix (k @ ''='') env) envs"

definition newtValid :: "ComposeService \<Rightarrow> bool" where
  "newtValid service \<longleftrightarrow>
     Image service \<noteq> [] \<and> sublist ''newt'' (Image service) \<and>
     list_all (envPresent (Environment service)) requiredEnvs \<and>
     hasDockerSocket (ComposeService.Volumes service)"

subsection \<open>Concrete documents\<close>

definition any_order :: RangeOrder where
  "any_order =
     \<lparr>envRankValidate = (\<lambda>k. 0), envRankProcess = (\<lambda>k. 0),
      serviceRankNetworks = (\<lambda>k. 0), serviceRankPorts = (\<lambda>k. 0),
      portRank = (\<lambda>p. 0)\<rparr>"

definition tunnel_config :: "string \<Rightarrow> NewtConfig" where
  "tunnel_config img =
     \<lparr>Endpoint = ''https://pangolin.example.com'', NewtID = ''id-1'', Secret = ''s3cret'',
      NewtConfig.Image = img, NewtConfig.LogLevel = [], HealthFile = [],
      CustomConfig = Map.empty\<rparr>"

definition web_service :: "string list \<Rightarrow> ComposeService" where
  "web_service networks =
     \<lparr>Image = ''nginx:latest'', ContainerName = [], Restart = [], Environment = [],
      Ports = [''8080:80''], ComposeService.Volumes = [], ComposeService.Networks = networks,
      DependsOn = [], HealthCheck = None, Labels = [], Command = None,
      Entrypoint = None\<rparr>"

definition user_newt :: "string \<Rightarrow> string list \<Rightarrow> ComposeService" where
  "user_newt img env =
     \<lparr>Image = img, ContainerName = ''newt'', Restart = [], Environment = env, Ports = [],
      ComposeService.Volumes = [''/var/run/docker.sock:/var/run/docker.sock:ro''],
      ComposeService.Networks = [], DependsOn = [], HealthCheck = None, Labels = [],
      Command = None, Entrypoint = None\<rparr>"

definition one_service_doc :: DockerCompose where
  "one_service_doc =
     \<lparr>Version = ''3.8'', Services = [(''web'', web_service [])], Networks = [],
      Volumes = []\<rparr>"


definition user_newt_doc :: "string \<Rightarrow> string list \<Rightarrow> DockerCompose" where
  "user_newt_doc img env =
     \<lparr>Version = ''3.8'',
      Services = [(''web'', web_service []), (''newt'', user_newt img env)],
      Networks = [], Volumes = []\<rparr>"

text \<open>What the injector makes of \<open>one_service_doc\<close> with the default image.\<close>

definition injected_one_service_doc :: DockerCompose where
  "injected_one_service_doc =
     \<lparr>Version = ''3.8'',
      Services =
        [(''web'', web_service [''app_network'']),
         (''newt'',
          \<lparr>Image = ''fosrl/newt:latest'', ContainerName = ''newt'',
           Restart = ''unless-stopped'',
           Environment = [''PANGOLIN_ENDPOINT=https://pangolin.example.com'', ''NEWT_ID=id-1'',
                          ''NEWT_SECRET=s3cret'', ''LOG_LEVEL=INFO'', ''HEALTH_FILE=/tmp/healthy''],
           Ports = [],
           ComposeService.Volumes = [''/var/run/docker.sock:/var/run/docker.sock:ro''],
           ComposeService.Networks = [''app_network''], DependsOn = [],
           HealthCheck = Some \<lparr>Test = [''CMD'', ''test'', ''-f'', ''/tmp/healthy''],
                                Interval = ''30s'', Timeout = ''10s'', Retries = 3,
                                StartPeriod = ''60s''\<rparr>,
           Labels = [(''app.type'', ''tunnel''), (''app.name'', ''newt''),
                     (''app.managed'', ''true''), (''traefik.enable'', ''false'')],
           Command = None, Entrypoint = None\<rparr>)],
      Networks = [(''app_network'',
                   \<lparr>ComposeNetwork.Driver = ''bridge'', ComposeNetwork.External = False,
                    ComposeNetwork.Name = [],
                    ComposeNetwork.Labels = [(''app.managed'', ''true'')]\<rparr>)],
      Volumes = []\<rparr>"

section \<open>Backup encryption (package backup)\<close>

subsection \<open>The cipher of the Go standard library\<close>

text \<open>
  AES is not part of the repository: the block function is the parameter \<open>aes\<close>, from a
  key and a block to a block, and nothing is assumed about it. \<open>aes.NewCipher\<close> accepts
  keys of 16, 24 and 32 bytes; the \<open>Block\<close> it returns is represented by its key.
  \<open>Encrypt\<close> cuts or pads the result of \<open>aes\<close> to the block size, so that every choice of
  \<open>aes\<close> is a block function.
\<close>

type_synonym byte = "8 word"

type_synonym block_cipher = "byte list \<Rightarrow> byte list \<Rightarrow> byte list"

datatype ioerr =
    EOF
  | ErrUnexpectedEOF
  | KeySizeError nat
  | ErrRandom
  | ErrOpen string
  | Annotated string ioerr

definition BlockSize :: nat where
  "BlockSize = 16"

definition aes_NewCipher :: "byte list \<Rightarrow> ioerr + byte list" where
  "aes_NewCipher key =
     (if length key = 16 \<or> length key = 24 \<or> length key = 32 then Inr key
      else Inl (KeySizeError (length key)))"

definition Encrypt :: "block_cipher \<Rightarrow> byte list \<Rightarrow> byte list \<Rightarrow> byte list" where
  "Encrypt aes block src = take BlockSize (aes block src @ replicate BlockSize 0)"

text \<open>
  The CFB stream of \<open>crypto/cipher\<close>: \<open>next\<close> is the block to encrypt next (first the IV,
  then the last block of ciphertext), \<open>out\<close> the current block of key stream and
  \<open>outUsed\<close> how much of it is spent. \<open>XORKeyStream\<close> refills \<open>out\<close> when it is spent, XORs
  the source with it and feeds the ciphertext (the result when encrypting, the source
  when decrypting) back into \<open>next\<close>. The library works on runs of bytes up to the end of
  the block; the model takes the bytes one by one, which computes the same. The
  constructors panic on an IV that is not one block long; every IV made in this package
  is a slice of \<open>aes.BlockSize\<close> bytes.
\<close>

record cfb =
  cfb_b :: "byte list"
  "next" :: "byte list"
  out :: "byte list"
  outUsed :: nat
  decrypt :: bool

definition newCFB :: "byte list \<Rightarrow> byte list \<Rightarrow> bool \<Rightarrow> cfb" where
  "newCFB block iv dec =
     \<lparr>cfb_b = block, next = iv, out = replicate BlockSize 0, outUsed = BlockSize, decrypt = dec\<rparr>"

definition NewCFBEncrypter :: "byte list \<Rightarrow> byte list \<Rightarrow> cfb" where
  "NewCFBEncrypter block iv = newCFB block iv False"

definition NewCFBDecrypter :: "byte list \<Rightarrow> byte list \<Rightarrow> cfb" where
  "NewCFBDecrypter block iv = newCFB block iv True"

definition refill :: "block_cipher \<Rightarrow> cfb \<Rightarrow> cfb" where
  "refill aes x =
     (if outUsed x = length (out x) then x\<lparr>out := Encrypt aes (cfb_b x) (next x), outUsed := 0\<rparr>
      else x)"

fun XORKeyStream :: "block_cipher \<Rightarrow> cfb \<Rightarrow> byte list \<Rightarrow> byte list \<times> cfb" where
  "XORKeyStream aes x [] = ([], x)"
| "XORKeyStream aes x (s # src) =
     (let x1 = refill aes x;
          d = s XOR (out x1 ! outUsed x1);
          x2 = x1\<lparr>next := (next x1)[outUsed x1 := (if decrypt x1 then s else d)],
                  outUsed := outUsed x1 + 1\<rparr>;
          (dst, x3) = XORKeyStream aes x2 src
      in (d # dst, x3))"

text \<open>The key stream that \<open>XORKeyStream\<close> applies to a source.\<close>

fun keyStream :: "block_cipher \<Rightarrow> cfb \<Rightarrow> byte list \<Rightarrow> byte list" where
  "keyStream aes x [] = []"
| "keyStream aes x (s # src) =
     (let x1 = refill aes x;
          k = out x1 ! outUsed x1;
          x2 = x1\<lparr>next := (next x1)[outUsed x1 := (if decrypt x1 then s else s XOR k)],
                  outUsed := outUsed x1 + 1\<rparr>
      in k # keyStream aes x2 src)"

subsection \<open>Readers\<close>

text \<open>
  An \<open>io.Reader\<close> is its state with its \<open>Read\<close>: \<open>rd r n\<close> is the call \<open>r.Read(p)\<close> on a
  buffer of \<open>n\<close> bytes, and returns the bytes read, the error and the state after the
  call. A \<open>Read\<close> built on a loop that may not end returns \<open>None\<close> when it does not.
\<close>

type_synonym 'r reader = "'r \<Rightarrow> nat \<Rightarrow> ((byte list \<times> ioerr option) \<times> 'r) option"

text \<open>
  A file opened for reading, or any reader of stored bytes: the bytes not read yet. It
  reports \<open>EOF\<close> when none is left.
\<close>

definition File_Read :: "(byte list) reader" where
  "File_Read remaining n =
     (if remaining = [] then Some (([], Some EOF), remaining)
      else Some ((take n remaining, None), drop n remaining))"

record singleUseReader =
  data :: "byte list"
  pos :: nat

definition singleUseReader_Read :: "singleUseReader reader" where
  "singleUseReader_Read r n =
     (if pos r \<ge> length (data r) then Some (([], Some EOF), r)
      else (let copied = take n (drop (pos r) (data r))
            in Some ((copied, None), r\<lparr>pos := pos r + length copied\<rparr>)))"

record 'r streamReader =
  reader :: 'r
  stream :: cfb

definition streamReader_Read :: "block_cipher \<Rightarrow> 'r reader \<Rightarrow> ('r streamReader) reader" where
  "streamReader_Read aes rd sr n =
     (case rd (reader sr) n of
        None \<Rightarrow> None
      | Some ((p, err), r') \<Rightarrow>
          (if length p > 0
           then (case XORKeyStream aes (stream sr) p of
                   (dst, x) \<Rightarrow> Some ((dst, err), sr\<lparr>reader := r', stream := x\<rparr>))
           else Some ((p, err), sr\<lparr>reader := r'\<rparr>)))"

text \<open>
  \<open>io.MultiReader\<close>: \<open>Read\<close> reads from the first reader left, drops it when it reports
  \<open>EOF\<close>, and goes on to the next one only when nothing was read.
\<close>

fun multiReader_Read :: "'r reader \<Rightarrow> ('r list) reader" where
  "multiReader_Read rd [] n = Some (([], Some EOF), [])"
| "multiReader_Read rd (r # rs) n =
     (case rd r n of
        None \<Rightarrow> None
      | Some ((p, err), r') \<Rightarrow>
          (let readers = (if err = Some EOF then rs else r' # rs)
           in if length p > 0 \<or> err \<noteq> Some EOF
              then Some ((p, if err = Some EOF \<and> length readers > 0 then None else err), readers)
              else multiReader_Read rd rs n))"

definition eitherReader :: "'a reader \<Rightarrow> 'b reader \<Rightarrow> ('a + 'b) reader" where
  "eitherReader rda rdb r n =
     (case r of
        Inl ra \<Rightarrow> map_option (\<lambda>(res, ra'). (res, Inl ra')) (rda ra n)
      | Inr rb \<Rightarrow> map_option (\<lambda>(res, rb'). (res, Inr rb')) (rdb rb n))"

text \<open>
  \<open>io.ReadFull\<close> is \<open>io.ReadAtLeast\<close> with the length of the buffer as the minimum: it
  reads until the buffer is full or an error comes, and has no bound on the calls that
  read nothing.
\<close>

partial_function (option) ReadAtLeast_loop ::
  "'r reader \<Rightarrow> nat \<Rightarrow> 'r \<Rightarrow> byte list \<Rightarrow> ioerr option \<Rightarrow> ((byte list \<times> ioerr option) \<times> 'r) option" where
  "ReadAtLeast_loop rd least r buf err =
     (if length buf < least \<and> err = None
      then (case rd r (least - length buf) of
              None \<Rightarrow> None
            | Some ((p, err'), r') \<Rightarrow> ReadAtLeast_loop rd least r' (buf @ p) err')
      else Some ((buf,
                  if length buf \<ge> least then None
                  else if length buf > 0 \<and> err = Some EOF then Some ErrUnexpectedEOF
                  else err), r))"

declare ReadAtLeast_loop.simps [code]

definition io_ReadFull :: "'r reader \<Rightarrow> 'r \<Rightarrow> nat \<Rightarrow> ((byte list \<times> ioerr option) \<times> 'r) option" where
  "io_ReadFull rd r n = ReadAtLeast_loop rd n r [] None"

text \<open>
  \<open>io.Copy\<close> into a file: it reads with a buffer of \<open>bufSize\<close> bytes until the reader
  reports an error, and returns what it wrote, with the error unless it is \<open>EOF\<close> (for a
  reader that is no file, the \<open>ReadFrom\<close> of the destination runs this same loop).
\<close>

partial_function (option) io_Copy_loop ::
  "'r reader \<Rightarrow> nat \<Rightarrow> 'r \<Rightarrow> byte list \<Rightarrow> ((byte list \<times> ioerr option) \<times> 'r) option" where
  "io_Copy_loop rd bufSize r written =
     (case rd r bufSize of
        None \<Rightarrow> None
      | Some ((p, None), r') \<Rightarrow> io_Copy_loop rd bufSize r' (written @ p)
      | Some ((p, Some er), r') \<Rightarrow>
          Some ((written @ p, if er = EOF then None else Some er), r'))"

declare io_Copy_loop.simps [code]

definition io_Copy :: "'r reader \<Rightarrow> nat \<Rightarrow> 'r \<Rightarrow> ((byte list \<times> ioerr option) \<times> 'r) option" where
  "io_Copy rd bufSize r = io_Copy_loop rd bufSize r []"

subsection \<open>The encrypting and the decrypting reader\<close>

text \<open>
  \<open>NewEncryptedReader\<close>: the reader it returns holds the \<open>io.MultiReader\<close> of the IV and
  of the encrypting stream. \<open>random\<close> is what \<open>io.ReadFull(rand.Reader, iv)\<close> delivers: the
  IV, or nothing when the random source fails.
\<close>

type_synonym 'r EncryptedReader = "(singleUseReader + 'r streamReader) list"

definition NewEncryptedReader ::
  "'r \<Rightarrow> byte list \<Rightarrow> byte list option \<Rightarrow> ioerr + 'r EncryptedReader" where
  "NewEncryptedReader rdr key random =
     (case aes_NewCipher key of
        Inl err \<Rightarrow> Inl err
      | Inr block \<Rightarrow>
          (case random of
             None \<Rightarrow> Inl ErrRandom
           | Some iv \<Rightarrow>
               Inr [Inl \<lparr>data = iv, pos = 0\<rparr>,
                    Inr \<lparr>reader = rdr, stream = NewCFBEncrypter block iv\<rparr>]))"

definition EncryptedReader_Read :: "block_cipher \<Rightarrow> 'r reader \<Rightarrow> ('r EncryptedReader) reader" where
  "EncryptedReader_Read aes rd =
     multiReader_Read (eitherReader singleUseReader_Read (streamReader_Read aes rd))"

text \<open>
  \<open>DecryptedReader\<close>. Its \<open>ivRead\<close> flag is set together with \<open>cipher\<close> and never cleared:
  the cipher is \<open>None\<close> exactly while \<open>ivRead\<close> is false.
\<close>

record 'r DecryptedReader =
  reader :: 'r
  cipher :: "cfb option"
  key :: "byte list"

definition NewDecryptedReader :: "'r \<Rightarrow> byte list \<Rightarrow> 'r DecryptedReader" where
  "NewDecryptedReader rdr k = \<lparr>reader = rdr, cipher = None, key = k\<rparr>"

text \<open>
  The first part of \<open>Read\<close>: the cipher to decrypt with, set up from the IV at the first
  call. The second part reads into a buffer of the length asked for and decrypts what
  was read.
\<close>

definition readIV ::
  "'r reader \<Rightarrow> 'r DecryptedReader \<Rightarrow> ((ioerr + cfb) \<times> 'r DecryptedReader) option" where
  "readIV rd dr =
     (case cipher dr of
        Some x \<Rightarrow> Some (Inr x, dr)
      | None \<Rightarrow>
          (case io_ReadFull rd (DecryptedReader.reader dr) BlockSize of
             None \<Rightarrow> None
           | Some ((iv, Some err), r') \<Rightarrow> Some (Inl err, dr\<lparr>DecryptedReader.reader := r'\<rparr>)
           | Some ((iv, None), r') \<Rightarrow>
               (case aes_NewCipher (key dr) of
                  Inl err \<Rightarrow> Some (Inl err, dr\<lparr>DecryptedReader.reader := r'\<rparr>)
                | Inr block \<Rightarrow>
                    Some (Inr (NewCFBDecrypter block iv),
                          dr\<lparr>DecryptedReader.reader := r',
                             cipher := Some (NewCFBDecrypter block iv)\<rparr>))))"

definition DecryptedReader_Read :: "block_cipher \<Rightarrow> 'r reader \<Rightarrow> ('r DecryptedReader) reader" where
  "DecryptedReader_Read aes rd dr n =
     (case readIV rd dr of
        None \<Rightarrow> None
      | Some (Inl err, dr1) \<Rightarrow> Some (([], Some err), dr1)
      | Some (Inr x, dr1) \<Rightarrow>
          (case rd (DecryptedReader.reader dr1) n of
             None \<Rightarrow> None
           | Some ((encrypted, err), r') \<Rightarrow>
               (if length encrypted > 0
                then (case XORKeyStream aes x encrypted of
                        (p, x') \<Rightarrow>
                          Some ((p, err), dr1\<lparr>DecryptedReader.reader := r', cipher := Some x'\<rparr>))
                else Some (([], err), dr1\<lparr>DecryptedReader.reader := r'\<rparr>))))"

subsection \<open>Files\<close>

text \<open>
  \<open>EncryptFile\<close>, \<open>DecryptFile\<close> and \<open>VerifyKey\<close> on a file system of byte sequences, in
  which \<open>os.Open\<close> fails on a missing file and \<open>os.Create\<close> and the writes succeed. The
  results are the error of the function (\<open>None\<close> for \<open>nil\<close>) and the files after it.
  \<open>os.Create\<close> empties the destination before anything is read. When the destination
  is the source, \<open>DecryptFile\<close> therefore reads an empty file, and \<open>EncryptFile\<close> reads
  back what it has just written and never comes to the end of the file.
\<close>

type_synonym files = "string \<rightharpoonup> byte list"

definition EncryptFile ::
  "block_cipher \<Rightarrow> byte list option \<Rightarrow> nat \<Rightarrow> files \<Rightarrow> string \<Rightarrow> string \<Rightarrow> byte list \<Rightarrow>
   (ioerr option \<times> files) option" where
  "EncryptFile aes random bufSize fls srcPath dstPath k =
     (case fls srcPath of
        None \<Rightarrow> Some (Some (Annotated ''failed to open source file'' (ErrOpen srcPath)), fls)
      | Some content \<Rightarrow>
          (let fls1 = fls(dstPath \<mapsto> [])
           in case NewEncryptedReader content k random of
                Inl err \<Rightarrow> Some (Some (Annotated ''failed to create encrypted reader'' err), fls1)
              | Inr encryptedReader \<Rightarrow>
                  (if srcPath = dstPath then None
                   else
                     (case io_Copy (EncryptedReader_Read aes File_Read) bufSize encryptedReader of
                        None \<Rightarrow> None
                      | Some ((written, err), r') \<Rightarrow>
                          (let fls2 = fls1(dstPath \<mapsto> written)
                           in case err of
                                Some e \<Rightarrow> Some (Some (Annotated ''failed to encrypt file'' e), fls2)
                              | None \<Rightarrow> Some (None, fls2))))))"

definition DecryptFile ::
  "block_cipher \<Rightarrow> nat \<Rightarrow> files \<Rightarrow> string \<Rightarrow> string \<Rightarrow> byte list \<Rightarrow> (ioerr option \<times> files) option" where
  "DecryptFile aes bufSize fls srcPath dstPath k =
     (case fls srcPath of
        None \<Rightarrow> Some (Some (Annotated ''failed to open source file'' (ErrOpen srcPath)), fls)
      | Some content \<Rightarrow>
          (let fls1 = fls(dstPath \<mapsto> []);
               decryptedReader =
                 NewDecryptedReader (if srcPath = dstPath then [] else content) k
           in case io_Copy (DecryptedReader_Read aes File_Read) bufSize decryptedReader of
                None \<Rightarrow> None
              | Some ((written, err), r') \<Rightarrow>
                  (let fls2 = fls1(dstPath \<mapsto> written)
                   in case err of
                        Some e \<Rightarrow> Some (Some (Annotated ''failed to decrypt file'' e), fls2)
                      | None \<Rightarrow> Some (None, fls2))))"

text \<open>
  \<open>VerifyKey\<close> reads the first 1024 bytes of the backup, wraps them in a
  \<open>singleUseReader\<close> and asks the decrypting reader for 100 bytes; \<open>EOF\<close> is no failure.
\<close>

definition VerifyKey :: "block_cipher \<Rightarrow> files \<Rightarrow> string \<Rightarrow> byte list \<Rightarrow> (ioerr option) option" where
  "VerifyKey aes fls backupPath k =
     (case fls backupPath of
        None \<Rightarrow> Some (Some (ErrOpen backupPath))
      | Some content \<Rightarrow>
          (case File_Read content 1024 of
             None \<Rightarrow> None
           | Some ((testData, err), file') \<Rightarrow>
               (if err \<noteq> None \<and> err \<noteq> Some EOF then Some err
                else
                  (let decryptedReader = NewDecryptedReader \<lparr>data = testData, pos = 0\<rparr> k
                   in case DecryptedReader_Read aes singleUseReader_Read decryptedReader 100 of
                        None \<Rightarrow> None
                      | Some ((testDecrypt, err), r') \<Rightarrow>
                          (if err \<noteq> None \<and> err \<noteq> Some EOF
                           then Some (Some (Annotated ''key verification failed'' (the err)))
                           else Some None)))))"

subsection \<open>A toy block function and concrete keys\<close>

text \<open>A stand-in for AES on concrete inputs: the block XORed with the key's first 16 bytes.\<close>

definition toy_aes :: block_cipher where
  "toy_aes k block = map2 (XOR) block (take 16 k)"

definition key_a :: "byte list" where
  "key_a = replicate 16 0x0A"

definition key_b :: "byte list" where
  "key_b = replicate 16 0x0B"

definition iv0 :: "byte list" where
  "iv0 = map of_nat [0..<16]"

definition archive0 :: "byte list" where
  "archive0 = map of_nat [65..<105]"

text \<open>The file an encrypting reader produces from \<open>archive0\<close> with \<open>key_a\<close> and \<open>iv0\<close>.\<close>

definition sealed0 :: "byte list" where
  "sealed0 = iv0 @ fst (XORKeyStream toy_aes (NewCFBEncrypter key_a iv0) archive0)"

definition backup_files :: files where
  "backup_files = [''backup.enc'' \<mapsto> sealed0]"

section \<open>The stack-name validator accepts exactly the specified grammar\<close>

lemma mem_via_codes: "c \<in> set cs \<longleftrightarrow> (of_char c :: nat) \<in> set (map of_char cs)"
  by auto

lemma code_interval:
  "(a \<le> c \<and> c \<le> b) \<longleftrightarrow> (of_char c :: nat) \<in> set [of_char a..<Suc (of_char b)]"
  by (simp only: set_upt atLeastLessThan_iff less_eq_char_def less_Suc_eq_le)

lemma lower_iff: "(CHR ''a'' \<le> c \<and> c \<le> CHR ''z'') \<longleftrightarrow> c \<in> set ''abcdefghijklmnopqrstuvwxyz''"
proof -
  have "map of_char ''abcdefghijklmnopqrstuvwxyz'' = [of_char CHR ''a''..<Suc (of_char CHR ''z'' :: nat)]"
    by simp
  then show ?thesis
    by (simp only: mem_via_codes [of c] code_interval)
qed

lemma upper_iff: "(CHR ''A'' \<le> c \<and> c \<le> CHR ''Z'') \<longleftrightarrow> c \<in> set ''ABCDEFGHIJKLMNOPQRSTUVWXYZ''"
proof -
  have "map of_char ''ABCDEFGHIJKLMNOPQRSTUVWXYZ'' = [of_char CHR ''A''..<Suc (of_char CHR ''Z'' :: nat)]"
    by simp
  then show ?thesis
    by (simp only: mem_via_codes [of c] code_interval)
qed

lemma digit_iff: "(CHR ''0'' \<le> c \<and> c \<le> CHR ''9'') \<longleftrightarrow> c \<in> set ''0123456789''"
proof -
  have "map of_char ''0123456789'' = [of_char CHR ''0''..<Suc (of_char CHR ''9'' :: nat)]"
    by simp
  then show ?thesis
    by (simp only: mem_via_codes [of c] code_interval)
qed

lemma alphanumeric_ranges:
  "alphanumeric c \<longleftrightarrow>
     (CHR ''a'' \<le> c \<and> c \<le> CHR ''z'') \<or> (CHR ''A'' \<le> c \<and> c \<le> CHR ''Z'') \<or>
     (CHR ''0'' \<le> c \<and> c \<le> CHR ''9'')"
  unfolding alphanumeric_def lower_iff upper_iff digit_iff ..

lemma runeAllowed_alphanumeric:
  "runeAllowed c \<longleftrightarrow> alphanumeric c \<or> c = CHR ''-'' \<or> c = CHR ''_''"
  unfolding runeAllowed_def alphanumeric_ranges by blast

lemma runesAllowed_list_all: "runesAllowed cs \<longleftrightarrow> list_all runeAllowed cs"
  by (induction cs) simp_all

lemma isValidStackName_spec: "isValidStackName name \<longleftrightarrow> spec_stack_name name"
proof (cases name)
  case Nil
  then show ?thesis by (simp add: isValidStackName_def spec_stack_name_def)
next
  case (Cons c cs)
  have allowed: "runesAllowed name \<longleftrightarrow>
      list_all (\<lambda>c. alphanumeric c \<or> c = CHR ''-'' \<or> c = CHR ''_'') name"
    by (simp only: runesAllowed_list_all runeAllowed_alphanumeric [abs_def])
  have first: "name ! 0 = hd name" "1 \<le> length name" "length name \<noteq> 0"
    using Cons by simp_all
  show ?thesis
    unfolding isValidStackName_def spec_stack_name_def allowed first
      alphanumeric_ranges [of "hd name", symmetric]
    using first(2,3) by (auto simp: not_less Suc_le_eq)
qed

text \<open>
  Claim C8. \<open>isValidStackName\<close> accepts exactly the names of the specified grammar
  (1 to 63 characters, each alphanumeric, \<open>-\<close> or \<open>_\<close>, the first one alphanumeric);
  \<open>DeploymentConfig.Validate\<close>, which the create handler runs before anything else,
  returns a validation error for every other name; \<open>my-app_1\<close> is accepted, and
  \<open>-leading\<close>, the empty name, every 64-character name and \<open>My App\<close> are rejected.
\<close>

theorem stack_name_validator:
  "(isValidStackName name \<longleftrightarrow> spec_stack_name name) \<and>
   (\<not> spec_stack_name (DeploymentConfig.StackName dc) \<longrightarrow>
      DeploymentConfig_Validate trim dc \<in>
        {Some ErrDeploymentTemplateRequired, Some ErrDeploymentStackNameRequired,
         Some ErrDeploymentInvalidStackName}) \<and>
   isValidStackName ''my-app_1'' \<and>
   \<not> isValidStackName ''-leading'' \<and>
   \<not> isValidStackName [] \<and>
   (length name64 = 64 \<longrightarrow> \<not> isValidStackName name64) \<and>
   \<not> isValidStackName ''My App''"
proof -
  have 1: "isValidStackName name \<longleftrightarrow> spec_stack_name name"
    by (rule isValidStackName_spec)
  have 2: "\<not> spec_stack_name (DeploymentConfig.StackName dc) \<longrightarrow>
      DeploymentConfig_Validate trim dc \<in>
        {Some ErrDeploymentTemplateRequired, Some ErrDeploymentStackNameRequired,
         Some ErrDeploymentInvalidStackName}"
    by (simp add: DeploymentConfig_Validate_def isValidStackName_spec [symmetric])
  have 3: "isValidStackName ''my-app_1''"
    by (simp add: isValidStackName_def runeAllowed_def)
  have 4: "\<not> isValidStackName ''-leading''"
    by (simp add: isValidStackName_def runeAllowed_def)
  have 5: "\<not> isValidStackName []"
    by (simp add: isValidStackName_def)
  have 6: "length name64 = 64 \<longrightarrow> \<not> isValidStackName name64"
    by (simp add: isValidStackName_def)
  have 7: "\<not> isValidStackName ''My App''"
    by (simp add: isValidStackName_def runeAllowed_def)
  from 1 2 3 4 5 6 7 show ?thesis by blast
qed

text \<open>
  The theorem at concrete inputs: an accepted name, a request whose name starts with a
  dash, and the name of 64 letters \<open>a\<close>.
\<close>

theorem stack_name_validator_witness:
  "isValidStackName ''demo-1'' \<and> spec_stack_name ''demo-1'' \<and>
   \<not> spec_stack_name (DeploymentConfig.StackName request_leading_dash) \<and>
   DeploymentConfig_Validate asciiTrimSpace request_leading_dash = Some ErrDeploymentInvalidStackName \<and>
   length (replicate 64 CHR ''a'') = 64 \<and>
   \<not> isValidStackName (replicate 64 CHR ''a'')"
proof -
  have a: "isValidStackName ''demo-1''"
    by (simp add: isValidStackName_def runeAllowed_def)
  have b: "\<not> isValidStackName ''-leading''"
    by (simp add: isValidStackName_def runeAllowed_def)
  have c: "DeploymentConfig_Validate asciiTrimSpace request_leading_dash = Some ErrDeploymentInvalidStackName"
    by (simp add: DeploymentConfig_Validate_def request_leading_dash_def asciiTrimSpace_def
        asciiSpace_def b)
  have d: "length (replicate 64 CHR ''a'') = 64" by simp
  have e: "\<not> spec_stack_name ''-leading''"
    using stack_name_validator [of "''-leading''"] b by simp
  from stack_name_validator [of "''demo-1''" request_leading_dash asciiTrimSpace "replicate 64 CHR ''a''"]
    a c d e
  show ?thesis by (simp add: request_leading_dash_def)
qed

section \<open>The capture pipeline always ends in status completed\<close>

lemma os_MkdirAll_backups: "os_MkdirAll e p s = (r, s1) \<Longrightarrow> backups s1 = backups s"
  by (auto simp: os_MkdirAll_def logged_def Let_def split: if_splits)

lemma os_Create_backups: "os_Create e p s = (r, s1) \<Longrightarrow> backups s1 = backups s"
  by (auto simp: os_Create_def logged_def Let_def split: if_splits)

lemma os_Open_backups: "os_Open e p s = (r, s1) \<Longrightarrow> backups s1 = backups s"
  by (auto simp: os_Open_def logged_def Let_def split: if_splits option.splits)

lemma os_RemoveAll_backups: "backups (os_RemoveAll p s) = backups s"
  by (simp add: os_RemoveAll_def logged_def Let_def)

lemma writeContent_backups: "writeContent e p c s = (r, s1) \<Longrightarrow> backups s1 = backups s"
  by (auto simp: writeContent_def split: if_splits)

lemma saveJSON_backups: "saveJSON e p d s = (r, s1) \<Longrightarrow> backups s1 = backups s"
proof -
  assume run: "saveJSON e p d s = (r, s1)"
  obtain r0 s0 where cr: "os_Create e p s = (r0, s0)" by (cases "os_Create e p s")
  have same: "backups s0 = backups s" using cr by (rule os_Create_backups)
  show ?thesis
  proof (cases r0)
    case None
    then have "writeContent e p (Json d) s0 = (r, s1)" using run cr by (simp add: saveJSON_def)
    then show ?thesis using writeContent_backups same by simp
  next
    case (Some err)
    then show ?thesis using run cr same by (simp add: saveJSON_def)
  qed
qed

lemma backupDeployment_backups: "backupDeployment e d dir s = (r, s1) \<Longrightarrow> backups s1 = backups s"
proof -
  assume run: "backupDeployment e d dir s = (r, s1)"
  show ?thesis
  proof (cases "deployments s d")
    case None
    then show ?thesis using run by (simp add: backupDeployment_def)
  next
    case (Some row)
    let ?dd = "filepath_Join [dir, ''deployments'', d]"
    obtain r0 s0 where mk: "os_MkdirAll e ?dd s = (r0, s0)" by (cases "os_MkdirAll e ?dd s")
    have same: "backups s0 = backups s" using mk by (rule os_MkdirAll_backups)
    show ?thesis
    proof (cases r0)
      case None
      then have "\<exists>p j. saveJSON e p j s0 = (r, s1)"
        using run Some mk by (auto simp: backupDeployment_def Let_def)
      then show ?thesis using saveJSON_backups same by auto
    next
      case err: (Some err)
      then show ?thesis using run Some mk same by (simp add: backupDeployment_def Let_def)
    qed
  qed
qed

lemma backupDeployments_backups: "backupDeployments e ds dir s = (r, s1) \<Longrightarrow> backups s1 = backups s"
proof (induction ds arbitrary: s)
  case Nil
  then show ?case by simp
next
  case (Cons d ds)
  obtain r0 s0 where step: "backupDeployment e d dir s = (r0, s0)"
    by (cases "backupDeployment e d dir s")
  have same: "backups s0 = backups s" using step by (rule backupDeployment_backups)
  show ?case
  proof (cases r0)
    case None
    then have "backupDeployments e ds dir s0 = (r, s1)" using Cons.prems step by simp
    then show ?thesis using Cons.IH same by simp
  next
    case (Some err)
    then show ?thesis using Cons.prems step same by simp
  qed
qed

lemma tarEntries_backups: "tarEntries e src ps s w = ((r, w'), s1) \<Longrightarrow> backups s1 = backups s"
proof (induction ps arbitrary: s w)
  case Nil
  then show ?case by simp
next
  case (Cons pn ps)
  obtain p node where pn: "pn = (p, node)" by (cases pn)
  show ?case
  proof (cases "filepath_Rel src p")
    case (Inl err)
    then show ?thesis using pn Cons.prems by simp
  next
    case (Inr rel)
    show ?thesis
    proof (cases node)
      case Dir
      then show ?thesis using pn Inr Cons by simp
    next
      case (File c)
      obtain r0 s0 where op: "os_Open e p s = (r0, s0)" by (cases "os_Open e p s")
      have same: "backups s0 = backups s" using op by (rule os_Open_backups)
      show ?thesis
      proof (cases r0)
        case (Inl err)
        then show ?thesis using pn Inr File op same Cons.prems by simp
      next
        case inr: (Inr opened)
        then have "tarEntries e src ps s0 (w @ [(rel, Some c)]) = ((r, w'), s1)"
          using pn Inr File op Cons.prems by simp
        then show ?thesis using Cons.IH same by simp
      qed
    qed
  qed
qed

lemma createArchive_backups: "createArchive e src ar s = (r, s1) \<Longrightarrow> backups s1 = backups s"
  by (auto simp: createArchive_def Let_def split: prod.splits option.splits if_splits
      dest: os_Create_backups) (metis os_Create_backups tarEntries_backups)+

lemma updateBackupStatus_dom:
  "backups s backupID \<noteq> None \<Longrightarrow> backups (updateBackupStatus e backupID' st s) backupID \<noteq> None"
  by (simp add: updateBackupStatus_def Let_def split: option.split)

lemma updateBackupRecord_dom:
  "backups s backupID \<noteq> None \<Longrightarrow> backups (snd (updateBackupRecord b s)) backupID \<noteq> None"
  by (simp add: updateBackupRecord_def split: option.split)

lemma performBackup_body_dom:
  assumes "backups s backupID \<noteq> None"
  shows "backups (performBackup_body e m backup config s) backupID \<noteq> None"
proof -
  let ?dir = "filepath_Join [storagePath m, ID backup]"
  let ?ar = "filepath_Join [storagePath m, ID backup @ ''.tar.gz'']"
  let ?md = "\<lparr>BackupMetadata.Version = ''1.0'', BackupMetadata.CreatedAt = CreatedAt backup,
              AppVersion = ''1.0.0'', TotalSize = 0,
              DeploymentCount = length (DeploymentIDs backup),
              VolumeCount = 0, EncryptionKey = [], Checksum = []\<rparr>"
  obtain r1 s1 where bd: "backupDeployments e (DeploymentIDs backup) ?dir s = (r1, s1)"
    by (cases "backupDeployments e (DeploymentIDs backup) ?dir s")
  have d1: "backups s1 backupID \<noteq> None"
    using backupDeployments_backups [OF bd] assms by simp
  obtain r2 s2 where sm: "saveMetadata e ?dir ?md s1 = (r2, s2)"
    by (cases "saveMetadata e ?dir ?md s1")
  have d2: "backups s2 backupID \<noteq> None"
    using saveJSON_backups [OF sm [unfolded saveMetadata_def]] d1 by simp
  obtain r3 s3 where ca: "createArchive e ?dir ?ar s2 = (r3, s3)"
    by (cases "createArchive e ?dir ?ar s2")
  have d3: "backups s3 backupID \<noteq> None"
    using createArchive_backups [OF ca] d2 by simp
  show ?thesis
  proof (cases r1)
    case (Some err)
    then have "performBackup_body e m backup config s =
        updateBackupStatus e (ID backup) BackupStatusFailed s1"
      using bd by (simp add: performBackup_body_def Let_def)
    then show ?thesis using d1 by (simp only: updateBackupStatus_dom not_False_eq_True)
  next
    case r1: None
    show ?thesis
    proof (cases r2)
      case (Some err)
      then have "performBackup_body e m backup config s =
          updateBackupStatus e (ID backup) BackupStatusFailed s2"
        using bd r1 sm by (simp add: performBackup_body_def Let_def)
      then show ?thesis using d2 by (simp only: updateBackupStatus_dom not_False_eq_True)
    next
      case r2: None
      show ?thesis
      proof (cases r3)
        case (Inl err)
        then have "performBackup_body e m backup config s =
            updateBackupStatus e (ID backup) BackupStatusFailed s3"
          using bd r1 sm r2 ca by (simp add: performBackup_body_def Let_def)
        then show ?thesis using d3 by (simp only: updateBackupStatus_dom not_False_eq_True)
      next
        case (Inr sz)
        then have "performBackup_body e m backup config s =
            os_RemoveAll ?dir
              (snd (updateBackupRecord
                 (backup\<lparr>StoragePath := ?ar, SizeBytes := sz, CompletedAt := Some (now e)\<rparr>) s3))"
          using bd r1 sm r2 ca by (simp add: performBackup_body_def Let_def)
        then show ?thesis
          using d3 by (simp only: os_RemoveAll_backups updateBackupRecord_dom not_False_eq_True)
      qed
    qed
  qed
qed

lemma updateBackupStatus_frame:
  "fs (updateBackupStatus e backupID st s) = fs s"
  "oslog (updateBackupStatus e backupID st s) = oslog s"
  by (simp_all add: updateBackupStatus_def Let_def split: option.split)

text \<open>
Claim C1 (the code departs from it). \<open>performBackup\<close> begins by deferring
  \<open>updateBackupStatus(backup.ID, BackupStatusCompleted)\<close>, so that call runs after every
  return, the failure returns included. Whatever happens in the capture, a record that
  exists ends with status \<open>completed\<close> and a completion time. When the manifest of
  some deployment cannot be written, the record ends \<open>completed\<close> with the storage
  path it had (the empty one), and the files and the calls to package \<open>os\<close> are those
  of the failed step: nothing is cleaned up.
\<close>

theorem performBackup_always_completed:
  assumes "backups s (ID backup) = Some row"
  shows "(\<exists>row'. backups (performBackup e m backup config s) (ID backup) = Some row' \<and>
            Status row' = BackupStatusCompleted \<and> CompletedAt row' = Some (now e)) \<and>
         (\<forall>err. fst (backupDeployments e (DeploymentIDs backup)
                       (filepath_Join [storagePath m, ID backup]) s) = Some err \<longrightarrow>
            backups (performBackup e m backup config s) (ID backup) =
              Some (row\<lparr>Status := BackupStatusCompleted, CompletedAt := Some (now e)\<rparr>) \<and>
            fs (performBackup e m backup config s) =
              fs (snd (backupDeployments e (DeploymentIDs backup)
                       (filepath_Join [storagePath m, ID backup]) s)) \<and>
            oslog (performBackup e m backup config s) =
              oslog (snd (backupDeployments e (DeploymentIDs backup)
                       (filepath_Join [storagePath m, ID backup]) s)))"
proof (intro conjI allI impI)
  have "backups (performBackup_body e m backup config s) (ID backup) \<noteq> None"
    using assms by (intro performBackup_body_dom) simp
  then obtain r where "backups (performBackup_body e m backup config s) (ID backup) = Some r"
    by blast
  then show "\<exists>row'. backups (performBackup e m backup config s) (ID backup) = Some row' \<and>
            Status row' = BackupStatusCompleted \<and> CompletedAt row' = Some (now e)"
    by (simp add: performBackup_def updateBackupStatus_def)
next
  fix err
  let ?dir = "filepath_Join [storagePath m, ID backup]"
  assume failed: "fst (backupDeployments e (DeploymentIDs backup) ?dir s) = Some err"
  obtain s1 where bd: "backupDeployments e (DeploymentIDs backup) ?dir s = (Some err, s1)"
    using failed by (cases "backupDeployments e (DeploymentIDs backup) ?dir s") simp
  have row1: "backups s1 (ID backup) = Some row"
    using backupDeployments_backups [OF bd] assms by simp
  have body: "performBackup_body e m backup config s =
      updateBackupStatus e (ID backup) BackupStatusFailed s1"
    using bd by (simp add: performBackup_body_def Let_def)
  show "backups (performBackup e m backup config s) (ID backup) =
      Some (row\<lparr>Status := BackupStatusCompleted, CompletedAt := Some (now e)\<rparr>)"
    using row1 by (simp add: performBackup_def body updateBackupStatus_def)
  show "fs (performBackup e m backup config s) = fs (snd (backupDeployments e (DeploymentIDs backup) ?dir s))"
    using bd by (simp add: performBackup_def body updateBackupStatus_frame)
  show "oslog (performBackup e m backup config s) = oslog (snd (backupDeployments e (DeploymentIDs backup) ?dir s))"
    using bd by (simp add: performBackup_def body updateBackupStatus_frame)
qed

text \<open>
The backup of a deployment that does not exist: the row is \<open>completed\<close>, its storage
  path is empty, and the staging directory is still there.
\<close>

theorem performBackup_always_completed_witness:
  "backups (capture_system [''deploy_9'']) (ID (new_backup [''deploy_9''])) =
     Some (new_backup [''deploy_9'']) \<and>
   fst (backupDeployments quiet (DeploymentIDs (new_backup [''deploy_9'']))
          (filepath_Join [storagePath manager, ID (new_backup [''deploy_9''])])
          (capture_system [''deploy_9''])) = Some ErrNoRows \<and>
   backups (performBackup quiet manager (new_backup [''deploy_9'']) (one_deployment ''deploy_9'')
              (capture_system [''deploy_9''])) ''backup_7'' =
     Some ((new_backup [''deploy_9''])\<lparr>Status := BackupStatusCompleted, CompletedAt := Some 7\<rparr>) \<and>
   StoragePath ((new_backup [''deploy_9''])\<lparr>Status := BackupStatusCompleted, CompletedAt := Some 7\<rparr>) = [] \<and>
   fs (performBackup quiet manager (new_backup [''deploy_9'']) (one_deployment ''deploy_9'')
         (capture_system [''deploy_9''])) =
     [(''/var'', Dir), (''/var/backups'', Dir), (''/var/backups/backup_7'', Dir)]"
proof -
  let ?b = "new_backup [''deploy_9'']"
  let ?s = "capture_system [''deploy_9'']"
  have row: "backups ?s (ID ?b) = Some ?b"
    by (simp add: capture_system_def new_backup_def)
  have run: "backupDeployments quiet (DeploymentIDs ?b) (filepath_Join [storagePath manager, ID ?b]) ?s
      = (Some ErrNoRows, ?s)"
    by (simp add: new_backup_def capture_system_def backupDeployment_def)
  have failed: "fst (backupDeployments quiet (DeploymentIDs ?b)
      (filepath_Join [storagePath manager, ID ?b]) ?s) = Some ErrNoRows"
    by (simp only: run fst_conv)
  have files: "fs ?s = [(''/var'', Dir), (''/var/backups'', Dir), (''/var/backups/backup_7'', Dir)]"
    by (simp add: capture_system_def)
  have nowq: "now quiet = 7" by (simp add: quiet_def)
  have id7: "ID ?b = ''backup_7''" by (simp add: new_backup_def)
  have path: "StoragePath (?b\<lparr>Status := BackupStatusCompleted, CompletedAt := Some 7\<rparr>) = []"
    by (simp add: new_backup_def)
  from performBackup_always_completed [OF row, of quiet manager "one_deployment ''deploy_9''"]
  have "backups (performBackup quiet manager ?b (one_deployment ''deploy_9'') ?s) (ID ?b) =
          Some (?b\<lparr>Status := BackupStatusCompleted, CompletedAt := Some (now quiet)\<rparr>) \<and>
        fs (performBackup quiet manager ?b (one_deployment ''deploy_9'') ?s) =
          fs (snd (backupDeployments quiet (DeploymentIDs ?b)
                     (filepath_Join [storagePath manager, ID ?b]) ?s))"
    using failed by blast
  moreover have "fs (snd (backupDeployments quiet (DeploymentIDs ?b)
      (filepath_Join [storagePath manager, ID ?b]) ?s)) =
      [(''/var'', Dir), (''/var/backups'', Dir), (''/var/backups/backup_7'', Dir)]"
    by (simp only: run snd_conv files)
  ultimately show ?thesis
    using row failed path by (simp add: nowq id7)
qed

section \<open>CreateBackup does not validate its configuration\<close>






section \<open>The gate of RestoreBackup\<close>














section \<open>Deleting a deployment and writing its status\<close>




section \<open>The tunnel injector\<close>

lemma markRequired_apply:
  "markRequired env keys found k =
     (if k \<in> set keys \<and> prefix (k @ ''='') env then Some True else found k)"
  by (induction keys arbitrary: found) auto

lemma markEnvironment_apply:
  "markEnvironment envs keys found k =
     (if k \<in> set keys \<and> list_ex (\<lambda>env. prefix (k @ ''='') env) envs then Some True else found k)"
  by (induction envs arbitrary: found) (auto simp: markRequired_apply)

lemma missing_filter:
  "filter (\<lambda>env. markEnvironment envs (sort_key rank requiredEnvs)
                    (map_of (map (\<lambda>k. (k, False)) requiredEnvs)) env = Some False)
     (sort_key rank requiredEnvs) =
   filter (\<lambda>k. \<not> envPresent envs k) (sort_key rank requiredEnvs)"
proof (rule filter_cong [OF refl])
  fix k assume "k \<in> set (sort_key rank requiredEnvs)"
  then have k: "k \<in> set requiredEnvs" by simp
  then have "map_of (map (\<lambda>k. (k, False)) requiredEnvs) k = Some False"
    by (auto simp: requiredEnvs_def)
  then show "(markEnvironment envs (sort_key rank requiredEnvs)
               (map_of (map (\<lambda>k. (k, False)) requiredEnvs)) k = Some False) = (\<not> envPresent envs k)"
    using k by (simp add: markEnvironment_apply envPresent_def)
qed

lemma validateNewtService_alt:
  "validateNewtService rank service =
     (if Image service = [] then Some ''newt service missing image''
      else if \<not> sublist ''newt'' (Image service)
        then Some (''newt service using incorrect image: '' @ Image service)
      else if filter (\<lambda>k. \<not> envPresent (Environment service) k) (sort_key rank requiredEnvs) \<noteq> []
        then Some (''missing required environment variables: '' @
                   strings_Join (filter (\<lambda>k. \<not> envPresent (Environment service) k)
                                   (sort_key rank requiredEnvs)) '', '')
      else if \<not> hasDockerSocket (ComposeService.Volumes service)
        then Some ''newt service missing Docker socket mount''
      else None)"
  by (simp add: validateNewtService_def Let_def missing_filter)

lemma validateNewtService_None: "validateNewtService rank service = None \<longleftrightarrow> newtValid service"
proof -
  have "filter (\<lambda>k. \<not> envPresent (Environment service) k) (sort_key rank requiredEnvs) = [] \<longleftrightarrow>
        list_all (envPresent (Environment service)) requiredEnvs"
    by (simp add: filter_empty_conv list_all_iff)
  then show ?thesis
    by (simp add: validateNewtService_alt newtValid_def)
qed

lemma newtValid_ensure [simp]: "newtValid (ensureServiceNetwork service) = newtValid service"
  by (simp add: newtValid_def ensureServiceNetwork_def)

lemma hasAppNetwork_iff: "hasAppNetwork networks \<longleftrightarrow> ''app_network'' \<in> set networks"
  by (induction networks) auto

lemma ensureServiceNetwork_member:
  "''app_network'' \<in> set (ComposeService.Networks (ensureServiceNetwork service))"
  by (simp add: ensureServiceNetwork_def hasAppNetwork_iff)

lemma ensureServiceNetwork_fixed:
  "''app_network'' \<in> set (ComposeService.Networks service) \<Longrightarrow> ensureServiceNetwork service = service"
  by (auto simp: ensureServiceNetwork_def hasAppNetwork_iff)

lemma ensureServiceNetwork_idem [simp]:
  "ensureServiceNetwork (ensureServiceNetwork service) = ensureServiceNetwork service"
  by (rule ensureServiceNetwork_fixed) (rule ensureServiceNetwork_member)

lemma ensure_createNewtService [simp]:
  "ensureServiceNetwork (createNewtService config) = createNewtService config"
  by (rule ensureServiceNetwork_fixed) (simp add: createNewtService_def Let_def)

lemma ensureNetworkConfiguration_Networks_nonempty:
  "Networks (ensureNetworkConfiguration compose) \<noteq> []"
  by (simp add: ensureNetworkConfiguration_def Let_def)

lemma ensureNetworkConfiguration_Services:
  "Services (ensureNetworkConfiguration compose) =
     map (\<lambda>(name, service). (name, ensureServiceNetwork service)) (Services compose)"
  by (simp add: ensureNetworkConfiguration_def Let_def)

lemma ensureNetworkConfiguration_lookup:
  "map_of (Services (ensureNetworkConfiguration compose)) name =
     map_option ensureServiceNetwork (map_of (Services compose) name)"
  by (simp add: ensureNetworkConfiguration_Services map_of_map)

lemma ensureNetworkConfiguration_idem [simp]:
  "ensureNetworkConfiguration (ensureNetworkConfiguration compose) =
     ensureNetworkConfiguration compose"
  by (simp add: ensureNetworkConfiguration_def Let_def comp_def case_prod_beta)

text \<open>The document of \<open>injectCompose\<close>, without the report.\<close>

lemma injectCompose_document:
  "fst (injectCompose ro config compose) =
     ensureNetworkConfiguration
       (case map_of (Services compose) ''newt'' of
          Some existingNewt \<Rightarrow>
            if newtValid existingNewt then compose
            else compose\<lparr>Services := AList.update ''newt'' (createNewtService config) (Services compose)\<rparr>
        | None \<Rightarrow> compose\<lparr>Services := AList.update ''newt'' (createNewtService config) (Services compose)\<rparr>)"
proof (cases "map_of (Services compose) ''newt''")
  case None
  then show ?thesis by (simp add: injectCompose_def Let_def)
next
  case (Some existingNewt)
  show ?thesis
  proof (cases "newtValid existingNewt")
    case True
    then have "validateNewtService (envRankProcess ro) existingNewt = None"
      by (simp add: validateNewtService_None)
    then show ?thesis using Some True by (simp add: injectCompose_def Let_def)
  next
    case False
    then obtain err where "validateNewtService (envRankProcess ro) existingNewt = Some err"
      using validateNewtService_None [of "envRankProcess ro" existingNewt]
      by (cases "validateNewtService (envRankProcess ro) existingNewt") auto
    then show ?thesis using Some False by (simp add: injectCompose_def Let_def)
  qed
qed

lemma injectCompose_fixed:
  assumes newt: "map_of (Services compose) ''newt'' = Some service"
      and ok: "newtValid service \<or> service = createNewtService config"
      and fixed: "ensureNetworkConfiguration compose = compose"
  shows "fst (injectCompose ro config compose) = compose"
proof (cases "newtValid service")
  case True
  then show ?thesis using newt fixed by (simp add: injectCompose_document)
next
  case False
  then have "service = createNewtService config" using ok by simp
  then have "AList.update ''newt'' (createNewtService config) (Services compose) = Services compose"
    using newt by (simp add: update_triv)
  then show ?thesis using newt False fixed by (simp add: injectCompose_document)
qed

lemma injectCompose_newt:
  "\<exists>service. map_of (Services (fst (injectCompose ro config compose))) ''newt'' = Some service \<and>
      (newtValid service \<or> service = createNewtService config)"
  by (cases "map_of (Services compose) ''newt''")
     (auto simp: injectCompose_document ensureNetworkConfiguration_lookup update_conv')

lemma injectCompose_idempotent:
  "fst (injectCompose ro2 config (fst (injectCompose ro1 config compose))) =
     fst (injectCompose ro1 config compose)"
proof -
  obtain service where newt:
    "map_of (Services (fst (injectCompose ro1 config compose))) ''newt'' = Some service"
    "newtValid service \<or> service = createNewtService config"
    using injectCompose_newt by blast
  have fixed: "ensureNetworkConfiguration (fst (injectCompose ro1 config compose)) =
      fst (injectCompose ro1 config compose)"
    by (simp add: injectCompose_document)
  show ?thesis using newt fixed by (rule injectCompose_fixed)
qed

text \<open>
Claim C2. Injecting into an injected document changes nothing: the second pass, under
  any iteration order, returns the document the first pass returned, so it adds no
  service, no network and no membership and changes no field. For the bytes:
  whenever \<open>yaml.Unmarshal\<close> reads back what \<open>yaml.Marshal\<close> writes, \<open>ProcessCompose\<close> on
  its own output returns that output.
\<close>

theorem ProcessCompose_idempotent:
  "fst (injectCompose ro2 config (fst (injectCompose ro1 config compose))) =
     fst (injectCompose ro1 config compose) \<and>
   ((\<forall>c b. marshal c = Some b \<longrightarrow> unmarshal b = Some c) \<and>
    ProcessCompose unmarshal marshal ro1 config composeContent = Inr (modifiedContent, report) \<longrightarrow>
      (\<exists>report'. ProcessCompose unmarshal marshal ro2 config modifiedContent =
                    Inr (modifiedContent, report')))"
proof (intro conjI impI)
  show "fst (injectCompose ro2 config (fst (injectCompose ro1 config compose))) =
      fst (injectCompose ro1 config compose)"
    by (rule injectCompose_idempotent)
next
  assume asm: "(\<forall>c b. marshal c = Some b \<longrightarrow> unmarshal b = Some c) \<and>
    ProcessCompose unmarshal marshal ro1 config composeContent = Inr (modifiedContent, report)"
  then have law: "\<And>c b. marshal c = Some b \<Longrightarrow> unmarshal b = Some c" by blast
  from asm obtain parsed where parsed: "unmarshal composeContent = Some parsed"
    by (auto simp: ProcessCompose_def split: option.splits)
  obtain out r where inj: "injectCompose ro1 config parsed = (out, r)"
    by (cases "injectCompose ro1 config parsed")
  have written: "marshal out = Some modifiedContent"
    using asm parsed inj by (auto simp: ProcessCompose_def split: option.splits)
  have reread: "unmarshal modifiedContent = Some out" using written by (rule law)
  have "fst (injectCompose ro2 config out) = out"
    using injectCompose_idempotent [of ro2 config ro1 parsed] inj by simp
  then obtain r' where again: "injectCompose ro2 config out = (out, r')"
    by (cases "injectCompose ro2 config out") simp
  have "ProcessCompose unmarshal marshal ro2 config modifiedContent = Inr (modifiedContent, r')"
    using reread again written by (simp add: ProcessCompose_def)
  then show "\<exists>report'. ProcessCompose unmarshal marshal ro2 config modifiedContent =
      Inr (modifiedContent, report')" by blast
qed

text \<open>
A document with one service and no tunnel agent, the YAML library replaced by the
  identity: the first pass yields \<open>injected_one_service_doc\<close>, the second pass yields it
  again.
\<close>

theorem ProcessCompose_idempotent_witness:
  "ProcessCompose Some Some any_order (tunnel_config []) one_service_doc =
     Inr (injected_one_service_doc, snd (injectCompose any_order (tunnel_config []) one_service_doc)) \<and>
   (\<exists>report'. ProcessCompose Some Some any_order (tunnel_config []) injected_one_service_doc =
      Inr (injected_one_service_doc, report'))"
proof -
  have law: "\<forall>c b. Some c = Some b \<longrightarrow> Some b = Some (c :: DockerCompose)" by simp
  have doc: "fst (injectCompose any_order (tunnel_config []) one_service_doc) = injected_one_service_doc"
    by (simp add: injectCompose_document one_service_doc_def injected_one_service_doc_def
        ensureNetworkConfiguration_def Let_def ensureServiceNetwork_def web_service_def
        createNewtService_def tunnel_config_def GetEnvironmentVars_def)
  have first: "ProcessCompose Some Some any_order (tunnel_config []) one_service_doc =
     Inr (injected_one_service_doc, snd (injectCompose any_order (tunnel_config []) one_service_doc))"
    using doc by (cases "injectCompose any_order (tunnel_config []) one_service_doc")
      (simp add: ProcessCompose_def)
  from ProcessCompose_idempotent [of any_order "tunnel_config []" any_order one_service_doc
      Some Some one_service_doc injected_one_service_doc
      "snd (injectCompose any_order (tunnel_config []) one_service_doc)"] law first
  have "\<exists>report'. ProcessCompose Some Some any_order (tunnel_config []) injected_one_service_doc =
      Inr (injected_one_service_doc, report')"
    by blast
  then show ?thesis using first by blast
qed

lemma ValidateCompose_Issues:
  "Issues (ValidateCompose ro compose) =
     (if Services compose = [] then [''No services defined in docker-compose file'']
      else (case map_of (Services compose) ''newt'' of
              None \<Rightarrow> []
            | Some service \<Rightarrow>
                (case validateNewtService (envRankValidate ro) service of
                   None \<Rightarrow> []
                 | Some err \<Rightarrow> [''Newt service configuration error: '' @ err])))"
  by (simp add: ValidateCompose_def Let_def split: option.split)

lemma ValidateCompose_Valid:
  "Valid (ValidateCompose ro compose) \<longleftrightarrow>
     Services compose \<noteq> [] \<and>
     (case map_of (Services compose) ''newt'' of None \<Rightarrow> True | Some service \<Rightarrow> newtValid service)"
  by (auto simp: ValidateCompose_def Let_def split: option.split)
     (metis validateNewtService_None option.distinct(1))+

lemma sublist_strings_Join: "x \<in> set xs \<Longrightarrow> sublist x (strings_Join xs sep)"
proof (induction xs sep rule: strings_Join.induct)
  case (1 sep)
  then show ?case by simp
next
  case (2 y sep)
  then show ?case by simp
next
  case (3 y z zs sep)
  show ?case
  proof (cases "x = y")
    case True
    then show ?thesis by (simp add: sublist_append_rightI)
  next
    case False
    then have "sublist x (strings_Join (z # zs) sep)" using 3 by simp
    then have "sublist x ((y @ sep) @ strings_Join (z # zs) sep)"
      by (simp only: sublist_append) simp
    then show ?thesis by simp
  qed
qed

lemma newtValid_createNewtService:
  "newtValid (createNewtService config) \<longleftrightarrow>
     NewtConfig.Image config = [] \<or> sublist ''newt'' (NewtConfig.Image config)"
  by (simp add: newtValid_def createNewtService_def Let_def GetEnvironmentVars_def
      requiredEnvs_def envPresent_def sublist_Cons_right)

lemma injectCompose_Issues:
  "Issues (snd (injectCompose ro config compose)) =
     Issues (ValidateCompose ro compose) @
     (case map_of (Services compose) ''newt'' of
        None \<Rightarrow> []
      | Some service \<Rightarrow>
          (case validateNewtService (envRankProcess ro) service of None \<Rightarrow> [] | Some err \<Rightarrow> [err]))"
  by (simp add: injectCompose_def Let_def split: option.split)

lemma injectCompose_Valid:
  "Valid (snd (injectCompose ro config compose)) \<longleftrightarrow>
     Issues (snd (injectCompose ro config compose)) = []"
  by (simp add: injectCompose_def Let_def split: option.split)

text \<open>
Claim C4 fails as stated. With \<open>NEWT_SECRET\<close> missing, \<open>ProcessCompose\<close> returns a report
  with \<open>Valid = false\<close>: the issues found before the repair stay in the report, and
  \<open>Valid\<close> is set from their number. With an empty image and \<open>NEWT_ID\<close> missing, the one
  issue of \<open>ValidateCompose\<close> is about the image and does not name \<open>NEWT_ID\<close>: the check
  of the service returns at its first violation.
\<close>

theorem newt_missing_variable_counterexample:
  "map_of (Services (user_newt_doc ''fosrl/newt'' [''PANGOLIN_ENDPOINT=x'', ''NEWT_ID=y''])) ''newt'' =
     Some (user_newt ''fosrl/newt'' [''PANGOLIN_ENDPOINT=x'', ''NEWT_ID=y'']) \<and>
   \<not> envPresent (Environment (user_newt ''fosrl/newt'' [''PANGOLIN_ENDPOINT=x'', ''NEWT_ID=y'']))
       ''NEWT_SECRET'' \<and>
   Valid (snd (injectCompose any_order (tunnel_config [])
                 (user_newt_doc ''fosrl/newt'' [''PANGOLIN_ENDPOINT=x'', ''NEWT_ID=y'']))) = False \<and>
   map_of (Services (user_newt_doc [] [''PANGOLIN_ENDPOINT=x'', ''NEWT_SECRET=z''])) ''newt'' =
     Some (user_newt [] [''PANGOLIN_ENDPOINT=x'', ''NEWT_SECRET=z'']) \<and>
   \<not> envPresent (Environment (user_newt [] [''PANGOLIN_ENDPOINT=x'', ''NEWT_SECRET=z''])) ''NEWT_ID'' \<and>
   Issues (ValidateCompose any_order (user_newt_doc [] [''PANGOLIN_ENDPOINT=x'', ''NEWT_SECRET=z''])) =
     [''Newt service configuration error: newt service missing image''] \<and>
   \<not> sublist ''NEWT_ID'' ''Newt service configuration error: newt service missing image''"
proof -
  have a: "validateNewtService r (user_newt ''fosrl/newt'' [''PANGOLIN_ENDPOINT=x'', ''NEWT_ID=y'']) =
      Some ''missing required environment variables: NEWT_SECRET''" for r
    by (simp add: validateNewtService_alt user_newt_def requiredEnvs_def envPresent_def
        sublist_Cons_right filter_sort [symmetric])
  have b: "validateNewtService r (user_newt [] [''PANGOLIN_ENDPOINT=x'', ''NEWT_SECRET=z'']) =
      Some ''newt service missing image''" for r
    by (simp add: validateNewtService_alt user_newt_def)
  have c: "\<not> sublist ''NEWT_ID'' ''Newt service configuration error: newt service missing image''"
    by (simp add: sublist_Cons_right)
  show ?thesis
    using c
    by (simp add: injectCompose_Valid injectCompose_Issues ValidateCompose_Issues a b
        user_newt_doc_def)
       (simp add: user_newt_def envPresent_def)
qed

lemma missing_message:
  assumes req: "required \<in> set requiredEnvs"
      and missing: "\<not> envPresent (Environment service) required"
      and img: "Image service \<noteq> []" "sublist ''newt'' (Image service)"
  shows "\<exists>names. validateNewtService rank service =
           Some (''missing required environment variables: '' @ strings_Join names '', '') \<and>
           required \<in> set names"
proof -
  let ?names = "filter (\<lambda>k. \<not> envPresent (Environment service) k) (sort_key rank requiredEnvs)"
  have mem: "required \<in> set ?names" using req missing by simp
  then have "?names \<noteq> []" by (metis empty_iff empty_set)
  then have "validateNewtService rank service =
      Some (''missing required environment variables: '' @ strings_Join ?names '', '')"
    using img by (simp add: validateNewtService_alt)
  then show ?thesis using mem by blast
qed

lemma not_newtValid_missing:
  "required \<in> set requiredEnvs \<Longrightarrow> \<not> envPresent (Environment service) required \<Longrightarrow>
   \<not> newtValid service"
  by (auto simp: newtValid_def list_all_iff)

text \<open>
Claim C4, amended. For a document whose service \<open>newt\<close> lacks a required environment
  variable: \<open>ValidateCompose\<close> returns \<open>Valid = false\<close>, and when the image of the service
  is not empty and contains \<open>newt\<close> its single issue names the missing variable;
  \<open>ProcessCompose\<close> replaces the service by the synthesized one and returns a report
  with \<open>Valid = false\<close> that lists the problem twice (as found by the validation and as
  repaired); validating the injected document gives \<open>Valid = true\<close> when the configured
  image is empty or contains \<open>newt\<close>.
\<close>

theorem newt_missing_variable:
  assumes newt: "map_of (Services compose) ''newt'' = Some service"
      and req: "required \<in> set requiredEnvs"
      and missing: "\<not> envPresent (Environment service) required"
  shows "Valid (ValidateCompose ro compose) = False \<and>
         (Image service \<noteq> [] \<and> sublist ''newt'' (Image service) \<longrightarrow>
            (\<exists>issue. Issues (ValidateCompose ro compose) = [issue] \<and> sublist required issue)) \<and>
         map_of (Services (fst (injectCompose ro config compose))) ''newt'' =
           Some (createNewtService config) \<and>
         Valid (snd (injectCompose ro config compose)) = False \<and>
         length (Issues (snd (injectCompose ro config compose))) = 2 \<and>
         (NewtConfig.Image config = [] \<or> sublist ''newt'' (NewtConfig.Image config) \<longrightarrow>
            Valid (ValidateCompose ro' (fst (injectCompose ro config compose))))"
proof (intro conjI impI)
  have invalid: "\<not> newtValid service" using req missing by (rule not_newtValid_missing)
  have nonempty: "Services compose \<noteq> []" using newt by auto
  obtain e1 where e1: "validateNewtService (envRankValidate ro) service = Some e1"
    using invalid validateNewtService_None [of "envRankValidate ro" service]
    by (cases "validateNewtService (envRankValidate ro) service") auto
  obtain e2 where e2: "validateNewtService (envRankProcess ro) service = Some e2"
    using invalid validateNewtService_None [of "envRankProcess ro" service]
    by (cases "validateNewtService (envRankProcess ro) service") auto
  show "Valid (ValidateCompose ro compose) = False"
    using newt invalid by (simp add: ValidateCompose_Valid)
  have issues: "Issues (snd (injectCompose ro config compose)) =
      [''Newt service configuration error: '' @ e1, e2]"
    using newt nonempty e1 e2 by (simp add: injectCompose_Issues ValidateCompose_Issues)
  show "Valid (snd (injectCompose ro config compose)) = False"
    by (simp add: injectCompose_Valid issues)
  show "length (Issues (snd (injectCompose ro config compose))) = 2"
    by (simp add: issues)
  show replaced: "map_of (Services (fst (injectCompose ro config compose))) ''newt'' =
      Some (createNewtService config)"
    using newt invalid
    by (simp add: injectCompose_document ensureNetworkConfiguration_lookup update_conv')
  {
    assume "Image service \<noteq> [] \<and> sublist ''newt'' (Image service)"
    then obtain names where names:
      "validateNewtService (envRankValidate ro) service =
         Some (''missing required environment variables: '' @ strings_Join names '', '')"
      "required \<in> set names"
      using missing_message [OF req missing] by blast
    have "sublist required (strings_Join names '', '')"
      using names(2) by (rule sublist_strings_Join)
    then have "sublist required
        ((''Newt service configuration error: '' @ ''missing required environment variables: '') @
         strings_Join names '', '')"
      by (simp only: sublist_append) simp
    then have "sublist required (''Newt service configuration error: '' @
        ''missing required environment variables: '' @ strings_Join names '', '')"
      by simp
    moreover have "Issues (ValidateCompose ro compose) =
        [''Newt service configuration error: '' @
         ''missing required environment variables: '' @ strings_Join names '', '']"
      using newt nonempty names(1) by (simp add: ValidateCompose_Issues)
    ultimately show "\<exists>issue. Issues (ValidateCompose ro compose) = [issue] \<and> sublist required issue"
      by blast
  }
  {
    assume "NewtConfig.Image config = [] \<or> sublist ''newt'' (NewtConfig.Image config)"
    then have "newtValid (createNewtService config)" by (simp add: newtValid_createNewtService)
    moreover have "Services (fst (injectCompose ro config compose)) \<noteq> []"
      using replaced by auto
    ultimately show "Valid (ValidateCompose ro' (fst (injectCompose ro config compose)))"
      using replaced by (simp add: ValidateCompose_Valid)
  }
qed

text \<open>
A tunnel-agent service with the right image and without \<open>NEWT_SECRET\<close>.
\<close>

theorem newt_missing_variable_witness:
  "map_of (Services (user_newt_doc ''fosrl/newt'' [''PANGOLIN_ENDPOINT=x'', ''NEWT_ID=y''])) ''newt'' =
     Some (user_newt ''fosrl/newt'' [''PANGOLIN_ENDPOINT=x'', ''NEWT_ID=y'']) \<and>
   ''NEWT_SECRET'' \<in> set requiredEnvs \<and>
   \<not> envPresent (Environment (user_newt ''fosrl/newt'' [''PANGOLIN_ENDPOINT=x'', ''NEWT_ID=y'']))
       ''NEWT_SECRET'' \<and>
   Valid (ValidateCompose any_order
            (user_newt_doc ''fosrl/newt'' [''PANGOLIN_ENDPOINT=x'', ''NEWT_ID=y''])) = False \<and>
   (\<exists>issue. Issues (ValidateCompose any_order
                      (user_newt_doc ''fosrl/newt'' [''PANGOLIN_ENDPOINT=x'', ''NEWT_ID=y''])) = [issue] \<and>
            sublist ''NEWT_SECRET'' issue) \<and>
   map_of (Services (fst (injectCompose any_order (tunnel_config [])
             (user_newt_doc ''fosrl/newt'' [''PANGOLIN_ENDPOINT=x'', ''NEWT_ID=y''])))) ''newt'' =
     Some (createNewtService (tunnel_config [])) \<and>
   Valid (ValidateCompose any_order
            (fst (injectCompose any_order (tunnel_config [])
               (user_newt_doc ''fosrl/newt'' [''PANGOLIN_ENDPOINT=x'', ''NEWT_ID=y'']))))"
proof -
  let ?env = "[''PANGOLIN_ENDPOINT=x'', ''NEWT_ID=y'']"
  have newt: "map_of (Services (user_newt_doc ''fosrl/newt'' ?env)) ''newt'' =
      Some (user_newt ''fosrl/newt'' ?env)"
    by (simp add: user_newt_doc_def)
  have req: "''NEWT_SECRET'' \<in> set requiredEnvs" by (simp add: requiredEnvs_def)
  have missing: "\<not> envPresent (Environment (user_newt ''fosrl/newt'' ?env)) ''NEWT_SECRET''"
    by (simp add: user_newt_def envPresent_def)
  have img: "Image (user_newt ''fosrl/newt'' ?env) \<noteq> [] \<and>
      sublist ''newt'' (Image (user_newt ''fosrl/newt'' ?env))"
    by (simp add: user_newt_def sublist_Cons_right)
  have cfg: "NewtConfig.Image (tunnel_config []) = [] \<or>
      sublist ''newt'' (NewtConfig.Image (tunnel_config []))"
    by (simp add: tunnel_config_def)
  from newt_missing_variable [OF newt req missing, of any_order "tunnel_config []" any_order]
    newt req missing img cfg
  show ?thesis by blast
qed









section \<open>Backup encryption: round trip and key verification\<close>

lemma XORKeyStream_length: "length (fst (XORKeyStream aes x src)) = length src"
  by (induction src arbitrary: x) (simp_all add: Let_def case_prod_beta)

lemma XORKeyStream_append:
  "XORKeyStream aes x (s1 @ s2) =
     (case XORKeyStream aes x s1 of (d1, x1) \<Rightarrow>
        (case XORKeyStream aes x1 s2 of (d2, x2) \<Rightarrow> (d1 @ d2, x2)))"
  by (induction s1 arbitrary: x) (simp_all add: Let_def case_prod_beta)

lemma XORKeyStream_keyStream:
  "fst (XORKeyStream aes x src) = map2 (XOR) src (keyStream aes x src)"
  by (induction src arbitrary: x) (simp_all add: Let_def case_prod_beta)

lemma keyStream_length: "length (keyStream aes x src) = length src"
  by (induction src arbitrary: x) (simp_all add: Let_def)

lemma refill_decrypt: "refill aes (x\<lparr>decrypt := d\<rparr>) = (refill aes x)\<lparr>decrypt := d\<rparr>"
  by (simp add: refill_def)

lemma decrypt_refill: "decrypt (refill aes x) = decrypt x"
  by (simp add: refill_def)

lemma XORKeyStream_inverse:
  "\<not> decrypt x \<Longrightarrow> XORKeyStream aes x src = (dst, x') \<Longrightarrow>
   XORKeyStream aes (x\<lparr>decrypt := True\<rparr>) dst = (src, x'\<lparr>decrypt := True\<rparr>)"
proof (induction src arbitrary: x dst x')
  case Nil
  then show ?case by simp
next
  case (Cons s src)
  let ?x1 = "refill aes x"
  let ?d = "s XOR (out ?x1 ! outUsed ?x1)"
  let ?x2 = "?x1\<lparr>next := (next ?x1)[outUsed ?x1 := ?d], outUsed := outUsed ?x1 + 1\<rparr>"
  obtain rest x3 where rest: "XORKeyStream aes ?x2 src = (rest, x3)"
    by (cases "XORKeyStream aes ?x2 src")
  have dst: "dst = ?d # rest" and x': "x' = x3"
    using Cons.prems rest by (simp_all add: Let_def decrypt_refill)
  have nd: "\<not> decrypt ?x2" using Cons.prems(1) by (simp add: decrypt_refill)
  have inv: "XORKeyStream aes (?x2\<lparr>decrypt := True\<rparr>) rest = (src, x3\<lparr>decrypt := True\<rparr>)"
    using Cons.IH [OF nd rest] .
  have cancel: "?d XOR (out ?x1 ! outUsed ?x1) = s"
    by (simp add: xor.assoc)
  have same: "?x1\<lparr>decrypt := True, next := (next ?x1)[outUsed ?x1 := ?d],
                 outUsed := Suc (outUsed ?x1)\<rparr> = ?x2\<lparr>decrypt := True\<rparr>"
    by (rule cfb.equality) simp_all
  have inv': "XORKeyStream aes (?x1\<lparr>decrypt := True, next := (next ?x1)[outUsed ?x1 := ?d],
                 outUsed := Suc (outUsed ?x1)\<rparr>) rest = (src, x3\<lparr>decrypt := True\<rparr>)"
    unfolding same by (rule inv)
  show ?case
    using inv' cancel by (simp add: dst x' Let_def refill_decrypt)
qed

lemma ReadAtLeast_loop_done:
  "\<not> (length buf < least \<and> err = None) \<Longrightarrow>
   ReadAtLeast_loop rd least r buf err =
     Some ((buf, if length buf \<ge> least then None
                 else if length buf > 0 \<and> err = Some EOF then Some ErrUnexpectedEOF
                 else err), r)"
  by (subst ReadAtLeast_loop.simps) auto

lemma ReadAtLeast_loop_more:
  "length buf < least \<Longrightarrow> rd r (least - length buf) = Some ((p, err'), r') \<Longrightarrow>
   ReadAtLeast_loop rd least r buf None = ReadAtLeast_loop rd least r' (buf @ p) err'"
  by (subst ReadAtLeast_loop.simps) simp

lemma io_Copy_loop_more:
  "rd r n = Some ((p, None), r') \<Longrightarrow>
   io_Copy_loop rd n r w = io_Copy_loop rd n r' (w @ p)"
  by (subst io_Copy_loop.simps) simp

lemma io_Copy_loop_end:
  "rd r n = Some ((p, Some er), r') \<Longrightarrow>
   io_Copy_loop rd n r w = Some ((w @ p, if er = EOF then None else Some er), r')"
  by (subst io_Copy_loop.simps) simp

lemma EncryptedReader_Read_stream:
  "0 < n \<Longrightarrow>
   EncryptedReader_Read aes File_Read [Inr \<lparr>streamReader.reader = rest, stream = x\<rparr>] n =
     (if rest = [] then Some (([], Some EOF), [])
      else Some ((fst (XORKeyStream aes x (take n rest)), None),
                 [Inr \<lparr>streamReader.reader = drop n rest,
                       stream = snd (XORKeyStream aes x (take n rest))\<rparr>]))"
  by (simp add: EncryptedReader_Read_def eitherReader_def streamReader_Read_def File_Read_def
      case_prod_beta XORKeyStream_length)

lemma EncryptedReader_Read_iv:
  "0 < n \<Longrightarrow>
   EncryptedReader_Read aes File_Read (Inl \<lparr>data = iv, pos = p\<rparr> # rs) n =
     (if p \<ge> length iv then EncryptedReader_Read aes File_Read rs n
      else Some ((take n (drop p iv), None),
                 Inl \<lparr>data = iv, pos = p + min n (length iv - p)\<rparr> # rs))"
  by (simp add: EncryptedReader_Read_def eitherReader_def singleUseReader_Read_def Let_def min_def)

lemma copy_stream:
  assumes n: "0 < n"
  shows "io_Copy_loop (EncryptedReader_Read aes File_Read) n
           [Inr \<lparr>streamReader.reader = rest, stream = x\<rparr>] w =
         Some ((w @ fst (XORKeyStream aes x rest), None), [])"
proof (induction rest arbitrary: x w rule: length_induct)
  case (1 rest)
  show ?case
  proof (cases "rest = []")
    case True
    then show ?thesis
      by (subst io_Copy_loop.simps) (simp add: EncryptedReader_Read_stream [OF n])
  next
    case False
    let ?x1 = "snd (XORKeyStream aes x (take n rest))"
    let ?d1 = "fst (XORKeyStream aes x (take n rest))"
    have shorter: "length (drop n rest) < length rest" using False n by simp
    have step: "io_Copy_loop (EncryptedReader_Read aes File_Read) n
           [Inr \<lparr>streamReader.reader = rest, stream = x\<rparr>] w =
          io_Copy_loop (EncryptedReader_Read aes File_Read) n
           [Inr \<lparr>streamReader.reader = drop n rest, stream = ?x1\<rparr>] (w @ ?d1)"
      by (subst io_Copy_loop.simps) (simp add: EncryptedReader_Read_stream [OF n] False)
    have "XORKeyStream aes x (take n rest @ drop n rest) =
            (?d1 @ fst (XORKeyStream aes ?x1 (drop n rest)), snd (XORKeyStream aes ?x1 (drop n rest)))"
      by (simp only: XORKeyStream_append) (simp add: case_prod_beta)
    then have whole: "fst (XORKeyStream aes x rest) = ?d1 @ fst (XORKeyStream aes ?x1 (drop n rest))"
      by simp
    show ?thesis
      using 1 [rule_format, OF shorter, of ?x1 "w @ ?d1"] by (simp add: step whole)
  qed
qed

lemma copy_iv:
  assumes n: "0 < n"
  shows "io_Copy_loop (EncryptedReader_Read aes File_Read) n
           [Inl \<lparr>data = iv, pos = p\<rparr>, Inr \<lparr>streamReader.reader = rest, stream = x\<rparr>] w =
         Some ((w @ drop p iv @ fst (XORKeyStream aes x rest), None), [])"
proof (induction "length iv - p" arbitrary: p w rule: less_induct)
  case less
  show ?case
  proof (cases "p \<ge> length iv")
    case True
    have "io_Copy_loop (EncryptedReader_Read aes File_Read) n
           [Inl \<lparr>data = iv, pos = p\<rparr>, Inr \<lparr>streamReader.reader = rest, stream = x\<rparr>] w =
          io_Copy_loop (EncryptedReader_Read aes File_Read) n
           [Inr \<lparr>streamReader.reader = rest, stream = x\<rparr>] w"
      by (subst io_Copy_loop.simps, subst (2) io_Copy_loop.simps)
        (simp add: EncryptedReader_Read_iv [OF n] True)
    then show ?thesis using True by (simp add: copy_stream [OF n])
  next
    case False
    let ?p = "p + min n (length iv - p)"
    have closer: "length iv - ?p < length iv - p" using False n by linarith
    have step: "io_Copy_loop (EncryptedReader_Read aes File_Read) n
           [Inl \<lparr>data = iv, pos = p\<rparr>, Inr \<lparr>streamReader.reader = rest, stream = x\<rparr>] w =
          io_Copy_loop (EncryptedReader_Read aes File_Read) n
           [Inl \<lparr>data = iv, pos = ?p\<rparr>, Inr \<lparr>streamReader.reader = rest, stream = x\<rparr>]
           (w @ take n (drop p iv))"
      by (subst io_Copy_loop.simps) (simp add: EncryptedReader_Read_iv [OF n] False)
    have parts: "take n (drop p iv) @ drop ?p iv = drop p iv"
    proof -
      have e: "drop n (drop p iv) = drop ?p iv"
        using False by (simp add: min_def add.commute)
      have "take n (drop p iv) @ drop n (drop p iv) = drop p iv"
        by (rule append_take_drop_id)
      then show ?thesis by (simp only: e)
    qed
    have "io_Copy_loop (EncryptedReader_Read aes File_Read) n
           [Inl \<lparr>data = iv, pos = ?p\<rparr>, Inr \<lparr>streamReader.reader = rest, stream = x\<rparr>]
           (w @ take n (drop p iv)) =
          Some (((w @ take n (drop p iv)) @ drop ?p iv @ fst (XORKeyStream aes x rest), None), [])"
      using closer by (rule less)
    then show ?thesis using parts by (simp add: step)
  qed
qed

lemma ReadFull_File:
  "io_ReadFull File_Read content 16 =
     Some (if content = [] then (([], Some EOF), [])
           else if length content < 16 then ((content, Some ErrUnexpectedEOF), [])
           else ((take 16 content, None), drop 16 content))"
proof -
  consider "content = []" | "content \<noteq> []" "length content < 16" | "16 \<le> length content"
    by fastforce
  then show ?thesis
  proof cases
    case 1
    have "ReadAtLeast_loop File_Read 16 content [] None = ReadAtLeast_loop File_Read 16 [] [] (Some EOF)"
      by (rule ReadAtLeast_loop_more [where p = "[]", simplified]) (simp_all add: File_Read_def 1)
    then show ?thesis
      by (simp add: io_ReadFull_def ReadAtLeast_loop_done 1)
  next
    case 2
    have "ReadAtLeast_loop File_Read 16 content [] None = ReadAtLeast_loop File_Read 16 [] content None"
      using 2 by (simp add: ReadAtLeast_loop_more [where p = content and r' = "[]"] File_Read_def)
    also have "\<dots> = ReadAtLeast_loop File_Read 16 [] content (Some EOF)"
      using 2 by (simp add: ReadAtLeast_loop_more [where p = "[]" and r' = "[]"] File_Read_def)
    finally show ?thesis
      using 2 by (simp add: io_ReadFull_def ReadAtLeast_loop_done)
  next
    case 3
    then have ne: "content \<noteq> []" by auto
    have "ReadAtLeast_loop File_Read 16 content [] None =
          ReadAtLeast_loop File_Read 16 (drop 16 content) (take 16 content) None"
      using ne by (simp add: ReadAtLeast_loop_more [where p = "take 16 content" and r' = "drop 16 content"]
          File_Read_def)
    then show ?thesis
      using 3 ne by (simp add: io_ReadFull_def ReadAtLeast_loop_done)
  qed
qed

lemma DecryptedReader_Read_first:
  assumes k: "length k = 16 \<or> length k = 24 \<or> length k = 32" and c: "16 \<le> length c"
  shows "DecryptedReader_Read aes File_Read (NewDecryptedReader c k) n =
         DecryptedReader_Read aes File_Read
           \<lparr>DecryptedReader.reader = drop 16 c,
            cipher = Some (NewCFBDecrypter k (take 16 c)), key = k\<rparr> n"
proof -
  have "c \<noteq> []" using c by auto
  then show ?thesis
    using k c
    by (simp add: DecryptedReader_Read_def readIV_def NewDecryptedReader_def BlockSize_def
        ReadFull_File aes_NewCipher_def)
qed

lemma DecryptedReader_Read_next:
  "0 < n \<Longrightarrow>
   DecryptedReader_Read aes File_Read
     \<lparr>DecryptedReader.reader = rest, cipher = Some x, key = k\<rparr> n =
     (if rest = [] then
        Some (([], Some EOF), \<lparr>DecryptedReader.reader = [], cipher = Some x, key = k\<rparr>)
      else Some ((fst (XORKeyStream aes x (take n rest)), None),
                 \<lparr>DecryptedReader.reader = drop n rest,
                  cipher = Some (snd (XORKeyStream aes x (take n rest))), key = k\<rparr>))"
  by (simp add: DecryptedReader_Read_def readIV_def File_Read_def case_prod_beta)

lemma copy_decrypt:
  assumes n: "0 < n"
  shows "map_option fst (io_Copy_loop (DecryptedReader_Read aes File_Read) n
           \<lparr>DecryptedReader.reader = rest, cipher = Some x, key = k\<rparr> w) =
         Some (w @ fst (XORKeyStream aes x rest), None)"
proof (induction rest arbitrary: x w rule: length_induct)
  case (1 rest)
  show ?case
  proof (cases "rest = []")
    case True
    then show ?thesis
      by (subst io_Copy_loop.simps) (simp add: DecryptedReader_Read_next [OF n])
  next
    case False
    let ?x1 = "snd (XORKeyStream aes x (take n rest))"
    let ?d1 = "fst (XORKeyStream aes x (take n rest))"
    have shorter: "length (drop n rest) < length rest" using False n by simp
    have step: "io_Copy_loop (DecryptedReader_Read aes File_Read) n
           \<lparr>DecryptedReader.reader = rest, cipher = Some x, key = k\<rparr> w =
          io_Copy_loop (DecryptedReader_Read aes File_Read) n
           \<lparr>DecryptedReader.reader = drop n rest, cipher = Some ?x1, key = k\<rparr> (w @ ?d1)"
      by (subst io_Copy_loop.simps) (simp add: DecryptedReader_Read_next [OF n] False)
    have "XORKeyStream aes x (take n rest @ drop n rest) =
            (?d1 @ fst (XORKeyStream aes ?x1 (drop n rest)), snd (XORKeyStream aes ?x1 (drop n rest)))"
      by (simp only: XORKeyStream_append) (simp add: case_prod_beta)
    then have whole: "fst (XORKeyStream aes x rest) = ?d1 @ fst (XORKeyStream aes ?x1 (drop n rest))"
      by simp
    show ?thesis
      using 1 [rule_format, OF shorter, of ?x1 "w @ ?d1"] by (simp add: step whole)
  qed
qed

lemma xor_left_cancel: "(x XOR y = x XOR z) = (y = (z :: byte))"
proof
  assume e: "x XOR y = x XOR z"
  have "y = x XOR (x XOR y)" by (simp add: xor.assoc [symmetric])
  also have "\<dots> = x XOR (x XOR z)" by (simp only: e)
  also have "\<dots> = z" by (simp add: xor.assoc [symmetric])
  finally show "y = z" .
qed simp

lemma map2_xor_cancel:
  "length a = length c \<Longrightarrow> length b = length c \<Longrightarrow>
   (map2 (XOR) c a = map2 (XOR) c b) = (a = (b :: byte list))"
proof (induction c arbitrary: a b)
  case Nil
  then show ?case by simp
next
  case (Cons x c)
  then obtain y a' z b' where "a = y # a'" "b = z # b'"
    by (cases a; cases b) auto
  then show ?case using Cons by (auto simp add: xor_left_cancel)
qed

lemma encrypting_reader_output:
  assumes k: "length k = 16 \<or> length k = 24 \<or> length k = 32" and n: "0 < n"
  shows "\<exists>encryptedReader.
           NewEncryptedReader content k (Some iv) = Inr encryptedReader \<and>
           io_Copy (EncryptedReader_Read aes File_Read) n encryptedReader =
             Some ((iv @ fst (XORKeyStream aes (NewCFBEncrypter k iv) content), None), [])"
  using k by (simp add: NewEncryptedReader_def aes_NewCipher_def io_Copy_def copy_iv [OF n])

lemma decrypting_reader_output:
  assumes k: "length k = 16 \<or> length k = 24 \<or> length k = 32" and n: "0 < n"
    and iv: "length iv = 16"
  shows "map_option fst (io_Copy (DecryptedReader_Read aes File_Read) n
           (NewDecryptedReader (iv @ c) k)) =
         Some (fst (XORKeyStream aes (NewCFBDecrypter k iv) c), None)"
proof -
  have "io_Copy_loop (DecryptedReader_Read aes File_Read) n (NewDecryptedReader (iv @ c) k) [] =
        io_Copy_loop (DecryptedReader_Read aes File_Read) n
          \<lparr>DecryptedReader.reader = drop 16 (iv @ c),
           cipher = Some (NewCFBDecrypter k (take 16 (iv @ c))), key = k\<rparr> []"
    by (subst io_Copy_loop.simps, subst (2) io_Copy_loop.simps)
      (simp add: DecryptedReader_Read_first [OF k] iv)
  then show ?thesis
    using copy_decrypt [OF n, of aes c "NewCFBDecrypter k iv" k "[]"] iv
    by (simp add: io_Copy_def)
qed

lemma decrypt_encrypt:
  "fst (XORKeyStream aes (NewCFBDecrypter k iv)
         (fst (XORKeyStream aes (NewCFBEncrypter k iv) content))) = content"
proof -
  obtain dst x' where e: "XORKeyStream aes (NewCFBEncrypter k iv) content = (dst, x')"
    by (cases "XORKeyStream aes (NewCFBEncrypter k iv) content")
  have "\<not> decrypt (NewCFBEncrypter k iv)" by (simp add: NewCFBEncrypter_def newCFB_def)
  then have "XORKeyStream aes ((NewCFBEncrypter k iv)\<lparr>decrypt := True\<rparr>) dst =
             (content, x'\<lparr>decrypt := True\<rparr>)"
    using e by (rule XORKeyStream_inverse)
  moreover have "(NewCFBEncrypter k iv)\<lparr>decrypt := True\<rparr> = NewCFBDecrypter k iv"
    by (simp add: NewCFBEncrypter_def NewCFBDecrypter_def newCFB_def)
  ultimately show ?thesis by (simp add: e)
qed

lemma ReadFull_singleUse:
  assumes "16 \<le> length d"
  shows "io_ReadFull singleUseReader_Read \<lparr>data = d, pos = 0\<rparr> 16 =
         Some ((take 16 d, None), \<lparr>data = d, pos = 16\<rparr>)"
proof -
  have ne: "d \<noteq> []" using assms by auto
  have "ReadAtLeast_loop singleUseReader_Read 16 \<lparr>data = d, pos = 0\<rparr> [] None =
        ReadAtLeast_loop singleUseReader_Read 16 \<lparr>data = d, pos = 16\<rparr> (take 16 d) None"
    using assms ne
    by (simp add: ReadAtLeast_loop_more [where p = "take 16 d" and r' = "\<lparr>data = d, pos = 16\<rparr>"]
        singleUseReader_Read_def Let_def min_def)
  then show ?thesis
    using assms by (simp add: io_ReadFull_def ReadAtLeast_loop_done)
qed

lemma wrong_key_differs:
  "fst (XORKeyStream toy_aes (NewCFBDecrypter key_b iv0)
         (fst (XORKeyStream toy_aes (NewCFBEncrypter key_a iv0) archive0))) \<noteq> archive0"
  by code_simp

lemma key_lengths: "length key_a = 16" "length key_b = 16" "length iv0 = 16" "key_b \<noteq> key_a"
  by (simp_all add: key_a_def key_b_def iv0_def)

lemma EncryptFile_DecryptFile:
  assumes stored: "fls srcPath = Some content"
    and paths: "srcPath \<noteq> encPath" "encPath \<noteq> decPath"
    and k: "length k = 16 \<or> length k = 24 \<or> length k = 32"
    and iv: "length iv = 16"
    and n: "0 < n1" "0 < n2"
  shows "\<exists>fls1 fls2.
           EncryptFile aes (Some iv) n1 fls srcPath encPath k = Some (None, fls1) \<and>
           DecryptFile aes n2 fls1 encPath decPath k = Some (None, fls2) \<and>
           fls2 decPath = Some content"
proof -
  let ?sealed = "iv @ fst (XORKeyStream aes (NewCFBEncrypter k iv) content)"
  let ?fls1 = "fls(encPath \<mapsto> ?sealed)"
  obtain er where er: "NewEncryptedReader content k (Some iv) = Inr er"
    and copy: "io_Copy (EncryptedReader_Read aes File_Read) n1 er = Some ((?sealed, None), [])"
    using encrypting_reader_output [OF k n(1)] by blast
  have enc: "EncryptFile aes (Some iv) n1 fls srcPath encPath k = Some (None, ?fls1)"
    using stored paths(1) by (simp add: EncryptFile_def er copy)
  obtain r' where dec: "io_Copy (DecryptedReader_Read aes File_Read) n2
      (NewDecryptedReader ?sealed k) = Some ((content, None), r')"
    using decrypting_reader_output [OF k n(2) iv, of aes "fst (XORKeyStream aes (NewCFBEncrypter k iv) content)"]
    by (auto simp add: decrypt_encrypt)
  have "DecryptFile aes n2 ?fls1 encPath decPath k = Some (None, ?fls1(decPath \<mapsto> content))"
    using paths(2) by (simp add: DecryptFile_def dec)
  then show ?thesis using enc by simp
qed

text \<open>
Claim C9 fails as stated. Of an empty byte sequence the encrypting reader delivers
  the IV alone; the decrypting reader given another key of valid length reads the IV,
  finds the end of the stream and delivers the empty sequence without an error, which is
  the original. This holds for every block function.
\<close>

theorem wrong_key_reproduces_empty:
  "\<forall>aes. key_b \<noteq> key_a \<and> length key_a = 16 \<and> length key_b = 16 \<and>
     (\<exists>encryptedReader.
        NewEncryptedReader [] key_a (Some iv0) = Inr encryptedReader \<and>
        map_option fst (io_Copy (EncryptedReader_Read aes File_Read) 32 encryptedReader) =
          Some (iv0, None)) \<and>
     map_option fst (io_Copy (DecryptedReader_Read aes File_Read) 32
        (NewDecryptedReader iv0 key_b)) = Some ([], None)"
proof
  fix aes :: block_cipher
  have a: "length key_a = 16 \<or> length key_a = 24 \<or> length key_a = 32"
    and b: "length key_b = 16 \<or> length key_b = 24 \<or> length key_b = 32"
    by (simp_all add: key_lengths)
  have enc: "\<exists>encryptedReader.
        NewEncryptedReader [] key_a (Some iv0) = Inr encryptedReader \<and>
        map_option fst (io_Copy (EncryptedReader_Read aes File_Read) 32 encryptedReader) =
          Some (iv0, None)"
    using encrypting_reader_output [OF a, of 32 "[]" iv0 aes] by auto
  have dec: "map_option fst (io_Copy (DecryptedReader_Read aes File_Read) 32
        (NewDecryptedReader iv0 key_b)) = Some ([], None)"
    using decrypting_reader_output [OF b, of 32 iv0 aes "[]"] by (simp add: key_lengths)
  show "key_b \<noteq> key_a \<and> length key_a = 16 \<and> length key_b = 16 \<and>
     (\<exists>encryptedReader.
        NewEncryptedReader [] key_a (Some iv0) = Inr encryptedReader \<and>
        map_option fst (io_Copy (EncryptedReader_Read aes File_Read) 32 encryptedReader) =
          Some (iv0, None)) \<and>
     map_option fst (io_Copy (DecryptedReader_Read aes File_Read) 32
        (NewDecryptedReader iv0 key_b)) = Some ([], None)"
    using enc dec by (simp add: key_lengths)
qed

text \<open>
Claim C9, amended. For every byte sequence, every key of 16, 24 or 32 bytes, every IV
  and all sizes of the copy buffers: the encrypting reader delivers the IV followed by
  as many bytes as the content has, and the decrypting reader with the same key, copied
  to its end, delivers the content and no error. With any other key of valid length the
  decrypting reader delivers, without an error, a sequence of the same length, which is
  the original exactly when both keys generate the same CFB key stream along the
  ciphertext (as they do for the empty content).
\<close>

theorem encrypt_decrypt_round_trip:
  assumes k: "length k = 16 \<or> length k = 24 \<or> length k = 32"
    and k': "length k' = 16 \<or> length k' = 24 \<or> length k' = 32"
    and iv: "length iv = 16"
    and n: "0 < n1" "0 < n2" "0 < n3"
  shows "\<exists>encryptedReader sealed other.
           NewEncryptedReader content k (Some iv) = Inr encryptedReader \<and>
           map_option fst (io_Copy (EncryptedReader_Read aes File_Read) n1 encryptedReader) =
             Some (iv @ sealed, None) \<and>
           length sealed = length content \<and>
           map_option fst (io_Copy (DecryptedReader_Read aes File_Read) n2
               (NewDecryptedReader (iv @ sealed) k)) = Some (content, None) \<and>
           map_option fst (io_Copy (DecryptedReader_Read aes File_Read) n3
               (NewDecryptedReader (iv @ sealed) k')) = Some (other, None) \<and>
           length other = length content \<and>
           (other = content \<longleftrightarrow>
              keyStream aes (NewCFBDecrypter k' iv) sealed =
              keyStream aes (NewCFBDecrypter k iv) sealed)"
proof -
  let ?sealed = "fst (XORKeyStream aes (NewCFBEncrypter k iv) content)"
  let ?other = "fst (XORKeyStream aes (NewCFBDecrypter k' iv) ?sealed)"
  obtain er where er: "NewEncryptedReader content k (Some iv) = Inr er"
    and copy: "io_Copy (EncryptedReader_Read aes File_Read) n1 er = Some ((iv @ ?sealed, None), [])"
    using encrypting_reader_output [OF k n(1)] by blast
  have same: "map_option fst (io_Copy (DecryptedReader_Read aes File_Read) n2
               (NewDecryptedReader (iv @ ?sealed) k)) = Some (content, None)"
    by (simp add: decrypting_reader_output [OF k n(2) iv] decrypt_encrypt)
  have other: "map_option fst (io_Copy (DecryptedReader_Read aes File_Read) n3
               (NewDecryptedReader (iv @ ?sealed) k')) = Some (?other, None)"
    by (rule decrypting_reader_output [OF k' n(3) iv])
  have len: "length ?other = length content"
    by (simp add: XORKeyStream_length)
  have "content = map2 (XOR) ?sealed (keyStream aes (NewCFBDecrypter k iv) ?sealed)"
    using XORKeyStream_keyStream [of aes "NewCFBDecrypter k iv" ?sealed]
    by (simp only: decrypt_encrypt)
  moreover have "?other = map2 (XOR) ?sealed (keyStream aes (NewCFBDecrypter k' iv) ?sealed)"
    by (rule XORKeyStream_keyStream)
  ultimately have iff: "?other = content \<longleftrightarrow>
      keyStream aes (NewCFBDecrypter k' iv) ?sealed = keyStream aes (NewCFBDecrypter k iv) ?sealed"
    using map2_xor_cancel [of "keyStream aes (NewCFBDecrypter k' iv) ?sealed" ?sealed
        "keyStream aes (NewCFBDecrypter k iv) ?sealed"]
    by (simp only: keyStream_length)
  have sealed: "length ?sealed = length content"
    by (simp add: XORKeyStream_length)
  show ?thesis
    using er copy same other len iff sealed
    by (intro exI [of _ er] exI [of _ ?sealed] exI [of _ ?other]) simp
qed

text \<open>
Forty bytes encrypted with \<open>key_a\<close>: \<open>key_a\<close> gives them back, \<open>key_b\<close> gives forty other
  bytes.
\<close>

theorem encrypt_decrypt_round_trip_witness:
  "length key_a = 16 \<and> length key_b = 16 \<and> length iv0 = 16 \<and>
   (\<exists>encryptedReader sealed other.
      NewEncryptedReader archive0 key_a (Some iv0) = Inr encryptedReader \<and>
      map_option fst (io_Copy (EncryptedReader_Read toy_aes File_Read) 32 encryptedReader) =
        Some (iv0 @ sealed, None) \<and>
      length sealed = 40 \<and>
      map_option fst (io_Copy (DecryptedReader_Read toy_aes File_Read) 7
          (NewDecryptedReader (iv0 @ sealed) key_a)) = Some (archive0, None) \<and>
      map_option fst (io_Copy (DecryptedReader_Read toy_aes File_Read) 5
          (NewDecryptedReader (iv0 @ sealed) key_b)) = Some (other, None) \<and>
      length other = 40 \<and> other \<noteq> archive0)"
proof -
  have a: "length key_a = 16 \<or> length key_a = 24 \<or> length key_a = 32"
    and b: "length key_b = 16 \<or> length key_b = 24 \<or> length key_b = 32"
    by (simp_all add: key_lengths)
  obtain er sealed other where
    er: "NewEncryptedReader archive0 key_a (Some iv0) = Inr er"
    and enc: "map_option fst (io_Copy (EncryptedReader_Read toy_aes File_Read) 32 er) =
        Some (iv0 @ sealed, None)"
    and slen: "length sealed = length archive0"
    and same: "map_option fst (io_Copy (DecryptedReader_Read toy_aes File_Read) 7
          (NewDecryptedReader (iv0 @ sealed) key_a)) = Some (archive0, None)"
    and other: "map_option fst (io_Copy (DecryptedReader_Read toy_aes File_Read) 5
          (NewDecryptedReader (iv0 @ sealed) key_b)) = Some (other, None)"
    and len: "length other = length archive0"
    using encrypt_decrypt_round_trip [where k = key_a and k' = key_b and iv = iv0 and ?n1.0 = 32
        and ?n2.0 = 7 and ?n3.0 = 5 and content = archive0 and aes = toy_aes, OF a b]
    by (auto simp add: key_lengths)
  have "sealed = fst (XORKeyStream toy_aes (NewCFBEncrypter key_a iv0) archive0)"
    using encrypting_reader_output [OF a, of 32 archive0 iv0 toy_aes] er enc by auto
  moreover have "other = fst (XORKeyStream toy_aes (NewCFBDecrypter key_b iv0) sealed)"
    using decrypting_reader_output [OF b, of 5 iv0 toy_aes sealed] other
    by (simp add: key_lengths)
  ultimately have differs: "other \<noteq> archive0"
    using wrong_key_differs by simp
  have "length archive0 = 40" by (simp add: archive0_def)
  then show ?thesis
    using er enc slen same other len differs key_lengths by auto
qed

text \<open>
Claim C10. For a stored file of at least 16 bytes and a key of 16, 24 or 32 bytes,
  \<open>VerifyKey\<close> returns \<open>nil\<close>, whatever the key and the block function are: the key is
  used to set up the cipher and the bytes it decrypts are compared with nothing.
\<close>

theorem VerifyKey_accepts_every_key:
  assumes stored: "fls backupPath = Some content"
    and block: "16 \<le> length content"
    and k: "length k = 16 \<or> length k = 24 \<or> length k = 32"
  shows "VerifyKey aes fls backupPath k = Some None"
proof -
  let ?d = "take 1024 content"
  have ne: "content \<noteq> []" using block by auto
  have d: "16 \<le> length ?d" using block by simp
  have iv: "readIV singleUseReader_Read (NewDecryptedReader \<lparr>data = ?d, pos = 0\<rparr> k) =
            Some (Inr (NewCFBDecrypter k (take 16 ?d)),
                  \<lparr>DecryptedReader.reader = \<lparr>data = ?d, pos = 16\<rparr>,
                   cipher = Some (NewCFBDecrypter k (take 16 ?d)), key = k\<rparr>)"
    using k by (simp add: readIV_def NewDecryptedReader_def BlockSize_def
        ReadFull_singleUse [OF d] aes_NewCipher_def del: take_take)
  have "\<exists>p err r'. DecryptedReader_Read aes singleUseReader_Read
           (NewDecryptedReader \<lparr>data = ?d, pos = 0\<rparr> k) 100 = Some ((p, err), r') \<and>
           (err = None \<or> err = Some EOF)"
    by (simp add: DecryptedReader_Read_def iv singleUseReader_Read_def Let_def case_prod_beta
        del: take_take)
  then obtain p err r' where "DecryptedReader_Read aes singleUseReader_Read
           (NewDecryptedReader \<lparr>data = ?d, pos = 0\<rparr> k) 100 = Some ((p, err), r')"
    and "err = None \<or> err = Some EOF"
    by blast
  then show ?thesis
    using stored ne by (auto simp add: VerifyKey_def File_Read_def)
qed

text \<open>
The file that the encrypting reader makes of \<open>archive0\<close> with \<open>key_a\<close> does not decrypt
  to \<open>archive0\<close> with \<open>key_b\<close>, and \<open>VerifyKey\<close> accepts \<open>key_b\<close>.
\<close>

theorem VerifyKey_accepts_every_key_witness:
  "backup_files ''backup.enc'' = Some sealed0 \<and> 16 \<le> length sealed0 \<and>
   length key_b = 16 \<and> key_b \<noteq> key_a \<and>
   (\<exists>encryptedReader.
      NewEncryptedReader archive0 key_a (Some iv0) = Inr encryptedReader \<and>
      map_option fst (io_Copy (EncryptedReader_Read toy_aes File_Read) 32 encryptedReader) =
        Some (sealed0, None)) \<and>
   map_option fst (io_Copy (DecryptedReader_Read toy_aes File_Read) 32
      (NewDecryptedReader sealed0 key_b)) \<noteq> Some (archive0, None) \<and>
   VerifyKey toy_aes backup_files ''backup.enc'' key_b = Some None"
proof -
  have a: "length key_a = 16 \<or> length key_a = 24 \<or> length key_a = 32"
    and b: "length key_b = 16 \<or> length key_b = 24 \<or> length key_b = 32"
    by (simp_all add: key_lengths)
  have stored: "backup_files ''backup.enc'' = Some sealed0"
    by (simp add: backup_files_def)
  have block: "16 \<le> length sealed0"
    by (simp add: sealed0_def key_lengths)
  have made: "\<exists>encryptedReader.
      NewEncryptedReader archive0 key_a (Some iv0) = Inr encryptedReader \<and>
      map_option fst (io_Copy (EncryptedReader_Read toy_aes File_Read) 32 encryptedReader) =
        Some (sealed0, None)"
    using encrypting_reader_output [OF a, of 32 archive0 iv0 toy_aes]
    by (auto simp add: sealed0_def)
  have d: "map_option fst (io_Copy (DecryptedReader_Read toy_aes File_Read) 32
      (NewDecryptedReader sealed0 key_b)) =
      Some (fst (XORKeyStream toy_aes (NewCFBDecrypter key_b iv0)
             (fst (XORKeyStream toy_aes (NewCFBEncrypter key_a iv0) archive0))), None)"
    unfolding sealed0_def by (rule decrypting_reader_output [OF b]) (simp_all add: key_lengths)
  have wrong: "map_option fst (io_Copy (DecryptedReader_Read toy_aes File_Read) 32
      (NewDecryptedReader sealed0 key_b)) \<noteq> Some (archive0, None)"
    unfolding d using wrong_key_differs by simp
  have "VerifyKey toy_aes backup_files ''backup.enc'' key_b = Some None"
    using stored block b by (rule VerifyKey_accepts_every_key)
  then show ?thesis
    using stored block made wrong by (simp add: key_lengths)
qed

end
